theory Spec2Isabelle
  imports Complex_Main "HOL-Library.Log_Nat" "HOL-Library.Char_ord" "HOL-Library.List_Lexorder"
begin

section \<open>Python and pandas values\<close>

text \<open>
  The module \<open>josemltools/eda.py\<close> works on pandas data frames. A numeric cell is a
  binary64 float that is a finite number or NaN (pandas' missing value): it is kept as a
  real number, with \<open>None\<close> standing for NaN. Infinite cells are not modelled, and a column
  of integers is taken with its values as floats, which is exact up to \<open>2 ^ 53\<close> in
  magnitude. The skew and the p-value that the libraries return are kept the same way, and
  every comparison with NaN is false, as in IEEE 754.

  What the module computes from the cells with float arithmetic (the quantiles, the IQR and
  the two outlier limits) has the type \<open>float64\<close> below: a finite number, an infinity or
  NaN, with the rounding and the overflow of binary64 arithmetic.
\<close>

type_synonym pyfloat = "real option"

datatype py_error = KeyError | TypeError | ZeroDivisionError | ValueError

definition flt :: "pyfloat \<Rightarrow> pyfloat \<Rightarrow> bool" where
  "flt a b = (case a of None \<Rightarrow> False
              | Some x \<Rightarrow> (case b of None \<Rightarrow> False | Some y \<Rightarrow> x < y))"

definition fle :: "pyfloat \<Rightarrow> pyfloat \<Rightarrow> bool" where
  "fle a b = (case a of None \<Rightarrow> False
              | Some x \<Rightarrow> (case b of None \<Rightarrow> False | Some y \<Rightarrow> x \<le> y))"

definition fgt :: "pyfloat \<Rightarrow> pyfloat \<Rightarrow> bool" where
  "fgt a b = flt b a"

definition fge :: "pyfloat \<Rightarrow> pyfloat \<Rightarrow> bool" where
  "fge a b = fle b a"

subsection \<open>Rounding to binary64\<close>

text \<open>
  \<open>fl64 x\<close> is the number nearest to \<open>x\<close> among the multiples of \<open>2 ^ e\<close>, ties going to
  the even multiple, where \<open>e\<close> is the exponent of the last place of \<open>x\<close> in binary64: 52
  places below the binary exponent \<open>ilog2 \<bar>x\<bar>\<close> of \<open>x\<close>, and \<open>- 1074\<close> in the subnormal
  range. It is the rounding of IEEE 754 with an unbounded exponent; \<open>to_float64\<close> below adds
  the overflow. \<open>is_binary64 x\<close> says that \<open>x\<close> is a finite binary64 number.
\<close>

definition round_half_even :: "real \<Rightarrow> int" where
  "round_half_even x =
     (let f = \<lfloor>x\<rfloor>; d = x - of_int f
      in if d < 1 / 2 then f else if 1 / 2 < d then f + 1 else if even f then f else f + 1)"

definition ilog2 :: "real \<Rightarrow> int" where
  "ilog2 x = (if 1 \<le> x then bitlen \<lfloor>x\<rfloor> - 1 else - bitlen (\<lceil>1 / x\<rceil> - 1))"

definition pow2 :: "int \<Rightarrow> real" where
  "pow2 e = (if 0 \<le> e then 2 ^ nat e else 1 / 2 ^ nat (- e))"

definition fl64 :: "real \<Rightarrow> real" where
  "fl64 x = (if x = 0 then 0
             else let e = max (ilog2 \<bar>x\<bar>) (- 1022) - 52;
                      m = round_half_even (\<bar>x\<bar> / pow2 e)
                  in sgn x * of_int m * pow2 e)"

definition is_binary64 :: "real \<Rightarrow> bool" where
  "is_binary64 x \<longleftrightarrow> fl64 x = x \<and> \<bar>x\<bar> < 2 ^ 1024"

subsection \<open>Integer division to a float, and \<open>round(x, 2)\<close>\<close>

text \<open>
  \<open>len(...) * 100\<close> and \<open>len(df)\<close> are Python integers, so \<open>/\<close> is the true division
  of two integers: it raises \<open>ZeroDivisionError\<close> on a zero divisor and otherwise returns
  the binary64 number nearest to the exact quotient (ties to even); the quotients here lie
  between \<open>100 / len(df)\<close> and \<open>100\<close>, far from underflow and overflow.
  \<open>round(x, 2)\<close> on a float rounds the exact value of \<open>x\<close> to two decimals, an exact tie
  going to the even neighbour, and returns the binary64 number nearest to that decimal.
\<close>

definition py_truediv :: "int \<Rightarrow> int \<Rightarrow> py_error + real" where
  "py_truediv a b = (if b = 0 then Inl ZeroDivisionError else Inr (fl64 (of_int a / of_int b)))"

definition py_round :: "real \<Rightarrow> nat \<Rightarrow> real" where
  "py_round x ndigits = fl64 (of_int (round_half_even (x * 10 ^ ndigits)) / 10 ^ ndigits)"

subsection \<open>Binary64 arithmetic\<close>

text \<open>
  A computed float is a finite number, an infinity or NaN. \<open>to_float64\<close> rounds an exact
  result: a result that rounds to \<open>2 ^ 1024\<close> or beyond in magnitude overflows to the
  infinity of its sign. Sums, differences and products follow IEEE 754: NaN propagates,
  \<open>inf - inf\<close> and \<open>0 * inf\<close> are NaN. An ordering comparison is false as soon as one side
  is NaN. The sign of a zero is not kept.
\<close>

datatype float64 = Fin real | PInf | NInf | FNaN

definition to_float64 :: "real \<Rightarrow> float64" where
  "to_float64 x =
     (let r = fl64 x in if 2 ^ 1024 \<le> \<bar>r\<bar> then (if 0 < x then PInf else NInf) else Fin r)"

fun f64_neg :: "float64 \<Rightarrow> float64" where
  "f64_neg (Fin x) = Fin (- x)"
| "f64_neg PInf = NInf"
| "f64_neg NInf = PInf"
| "f64_neg FNaN = FNaN"

fun f64_add :: "float64 \<Rightarrow> float64 \<Rightarrow> float64" where
  "f64_add (Fin x) (Fin y) = to_float64 (x + y)"
| "f64_add FNaN _ = FNaN"
| "f64_add _ FNaN = FNaN"
| "f64_add PInf NInf = FNaN"
| "f64_add NInf PInf = FNaN"
| "f64_add PInf _ = PInf"
| "f64_add _ PInf = PInf"
| "f64_add NInf _ = NInf"
| "f64_add _ NInf = NInf"

definition f64_sub :: "float64 \<Rightarrow> float64 \<Rightarrow> float64" where
  "f64_sub a b = f64_add a (f64_neg b)"

fun f64_sgn :: "float64 \<Rightarrow> int" where
  "f64_sgn (Fin x) = (if x < 0 then - 1 else if x = 0 then 0 else 1)"
| "f64_sgn PInf = 1"
| "f64_sgn NInf = - 1"
| "f64_sgn FNaN = 0"

fun f64_mul :: "float64 \<Rightarrow> float64 \<Rightarrow> float64" where
  "f64_mul (Fin x) (Fin y) = to_float64 (x * y)"
| "f64_mul FNaN _ = FNaN"
| "f64_mul _ FNaN = FNaN"
| "f64_mul a b = (if f64_sgn a * f64_sgn b = 0 then FNaN
                  else if 0 < f64_sgn a * f64_sgn b then PInf else NInf)"

fun f64_lt :: "float64 \<Rightarrow> float64 \<Rightarrow> bool" where
  "f64_lt FNaN _ = False"
| "f64_lt _ FNaN = False"
| "f64_lt (Fin x) (Fin y) = (x < y)"
| "f64_lt (Fin x) PInf = True"
| "f64_lt (Fin x) NInf = False"
| "f64_lt PInf _ = False"
| "f64_lt NInf NInf = False"
| "f64_lt NInf _ = True"

definition f64_gt :: "float64 \<Rightarrow> float64 \<Rightarrow> bool" where
  "f64_gt a b = f64_lt b a"

definition cell_float :: "pyfloat \<Rightarrow> float64" where
  "cell_float v = (case v of None \<Rightarrow> FNaN | Some x \<Rightarrow> Fin x)"

section \<open>Data frames\<close>

text \<open>
  A data frame is its row labels and its named, typed columns in their declared order.
  A numeric column (\<open>select_dtypes(include=np.number)\<close> keeps it) holds floats, an object
  column holds strings; both may hold missing values. \<open>len(df)\<close> is the number of row
  labels. \<open>df[col]\<close> raises \<open>KeyError\<close> for an absent column; column names are taken
  to be distinct, and the lookup returns the first column of that name. \<open>df[mask]\<close> keeps
  the rows where the boolean mask is true, with their labels.
\<close>

datatype column = NumCol "pyfloat list" | ObjCol "string option list"

record dataframe =
  df_index :: "nat list"
  df_columns :: "(string \<times> column) list"

definition len_df :: "dataframe \<Rightarrow> nat" where
  "len_df df = length (df_index df)"

definition getitem :: "dataframe \<Rightarrow> string \<Rightarrow> py_error + column" where
  "getitem df col = (case map_of (df_columns df) col of None \<Rightarrow> Inl KeyError | Some c \<Rightarrow> Inr c)"

definition select_rows :: "bool list \<Rightarrow> 'a list \<Rightarrow> 'a list" where
  "select_rows keep xs = map snd (filter fst (zip keep xs))"

fun column_select :: "bool list \<Rightarrow> column \<Rightarrow> column" where
  "column_select keep (NumCol xs) = NumCol (select_rows keep xs)"
| "column_select keep (ObjCol xs) = ObjCol (select_rows keep xs)"

definition df_select :: "dataframe \<Rightarrow> bool list \<Rightarrow> dataframe" where
  "df_select df keep =
     \<lparr>df_index = select_rows keep (df_index df),
      df_columns = map (\<lambda>(n, c). (n, column_select keep c)) (df_columns df)\<rparr>"

definition select_dtypes_number :: "dataframe \<Rightarrow> string list" where
  "select_dtypes_number df =
     map fst (filter (\<lambda>(n, c). case c of NumCol _ \<Rightarrow> True | ObjCol _ \<Rightarrow> False) (df_columns df))"

subsection \<open>\<open>Series.quantile\<close> and \<open>Series.mode\<close>\<close>

text \<open>
  pandas' \<open>Series.quantile(q)\<close> with its default interpolation drops the missing values
  and hands the rest to numpy's linear-interpolation percentile. With \<open>n\<close> sorted values
  numpy takes the position \<open>virtual_index = (n - 1) * q\<close> (a float product), the ranks
  \<open>previous_index = floor(virtual_index)\<close> and the next one, and the weight
  \<open>gamma = virtual_index - previous_index\<close>; from the last rank on, both ranks are the
  last one and the weight is \<open>virtual_index + 1\<close>. The two values are combined by
  \<open>_lerp(a, b, t)\<close>: \<open>a + (b - a) * t\<close>, replaced by \<open>b - (b - a) * (1 - t)\<close> where
  \<open>t >= 0.5\<close>, every operation in binary64. The quantile of a series with no value is NaN.
  On an object column that holds a string the call raises \<open>TypeError\<close>. pandas hands
  \<open>q * 100\<close> to numpy, which divides it by 100 again; both steps are exact for 0.25, 0.5
  and 0.75, the only values of \<open>q\<close> that the module uses.
\<close>

definition dropna :: "'a option list \<Rightarrow> 'a list" where
  "dropna xs = List.map_filter id xs"

definition np_lerp :: "real \<Rightarrow> real \<Rightarrow> real \<Rightarrow> float64" where
  "np_lerp a b t =
     (let diff_b_a = f64_sub (Fin b) (Fin a)
      in if t < 1 / 2 then f64_add (Fin a) (f64_mul diff_b_a (Fin t))
         else f64_sub (Fin b) (f64_mul diff_b_a (f64_sub (Fin 1) (Fin t))))"

definition series_quantile :: "pyfloat list \<Rightarrow> real \<Rightarrow> float64" where
  "series_quantile xs q =
     (let ys = sort (dropna xs); n = length ys
      in if ys = [] then FNaN
         else let virtual_index = fl64 (real (n - 1) * q)
              in if real (n - 1) \<le> virtual_index
                 then np_lerp (ys ! (n - 1)) (ys ! (n - 1)) (fl64 (virtual_index + 1))
                 else let previous_index = nat \<lfloor>virtual_index\<rfloor>
                      in np_lerp (ys ! previous_index) (ys ! (previous_index + 1))
                           (virtual_index - real previous_index))"

text \<open>
  \<open>Series.mode()\<close> drops missing values and returns the values of highest count in
  ascending order; \<open>[0]\<close> takes the first of them and raises \<open>KeyError\<close> when there is none.
\<close>

definition max_count :: "'a list \<Rightarrow> nat" where
  "max_count ys = fold max (map (count_list ys) ys) 0"

definition series_mode :: "('a::linorder) option list \<Rightarrow> 'a list" where
  "series_mode xs =
     (let ys = dropna xs
      in sort (remdups (filter (\<lambda>v. count_list ys v = max_count ys) ys)))"

definition first_item :: "'a list \<Rightarrow> py_error + 'a" where
  "first_item xs = (case xs of [] \<Rightarrow> Inl KeyError | x # _ \<Rightarrow> Inr x)"

section \<open>\<open>study_column_continuous\<close>\<close>

text \<open>
  The function prints its statistics and returns the outlier rows. The record below holds
  what it prints (the three quantiles, the IQR, the two outlier limits, the skew and its
  message, the Shapiro-Wilk result and its message, the outlier percentage) together with
  the returned frame. The mean, median and standard deviation printed under
  \<open>print_stats\<close> and the plots drawn under \<open>plot\<close> and before the normality test are not
  part of the record, and the drawing calls are taken to return; both flags are kept as
  arguments. \<open>Series.skew\<close> and \<open>scipy.stats.shapiro\<close> are library functions taken as
  parameters: \<open>skew_lib\<close> returns a float, \<open>shapiro_lib\<close> a statistic and a p-value or
  an exception. The steps keep the order of the source: quantiles and limits, skew,
  normality test, outlier rows, percentage. \<open>quants[2] - quants[0]\<close>, \<open>1.5 * iqr\<close> and the
  two limits are float operations, and the mask \<open>(df[col] < lowerBound) | (df[col] >
  upperBound)\<close> compares every cell with the two limits. The numeric methods raise
  \<open>TypeError\<close> on an object column that holds a string; an object column that holds no
  value goes through them as a column of missing values.
\<close>

record continuous_out =
  quants :: "float64 list"
  iqr :: float64
  lowerBound :: float64
  upperBound :: float64
  skew_printed :: "pyfloat option"
  skew_message :: "string option"
  shapiro_printed :: "(pyfloat \<times> pyfloat) option"
  gaussian_message :: "string option"
  outliers :: dataframe
  outliers_percent :: real

definition skew_text :: "pyfloat \<Rightarrow> string option" where
  "skew_text skew =
     (if flt skew (Some (- 1)) \<or> fgt skew (Some 1)
      then Some ''The distribution is highly skewed''
      else if (fge skew (Some (- 1)) \<and> flt skew (Some (- 0.5)))
              \<or> (fgt skew (Some 0.5) \<and> fle skew (Some 1))
      then Some ''The distribution is moderately skewed''
      else None)"

definition gaussian_text :: "pyfloat \<Rightarrow> string" where
  "gaussian_text p =
     (if fgt p (Some (fl64 0.05)) then ''Sample looks Gaussian (fail to reject H0)''
      else ''Sample does not look Gaussian (reject H0)'')"

definition outlier_mask :: "pyfloat list \<Rightarrow> float64 \<Rightarrow> float64 \<Rightarrow> bool list" where
  "outlier_mask xs lo hi = map (\<lambda>v. f64_lt (cell_float v) lo \<or> f64_gt (cell_float v) hi) xs"

fun numeric_values :: "column \<Rightarrow> py_error + pyfloat list" where
  "numeric_values (NumCol xs) = Inr xs"
| "numeric_values (ObjCol ys) =
     (if dropna ys = [] then Inr (map (\<lambda>_. None) ys) else Inl TypeError)"

definition study_column_continuous ::
  "(pyfloat list \<Rightarrow> pyfloat) \<Rightarrow> (pyfloat list \<Rightarrow> py_error + pyfloat \<times> pyfloat) \<Rightarrow>
   dataframe \<Rightarrow> string \<Rightarrow> bool \<Rightarrow> bool \<Rightarrow> bool \<Rightarrow> bool \<Rightarrow> py_error + continuous_out" where
  "study_column_continuous skew_lib shapiro_lib df col print_stats plot skew gaussian_test =
     (case getitem df col of
        Inl e \<Rightarrow> Inl e
      | Inr c \<Rightarrow>
     (case numeric_values c of
        Inl e \<Rightarrow> Inl e
      | Inr xs \<Rightarrow>
          let qs = map (\<lambda>i. series_quantile xs (real i / 4)) [1..<4];
              iqr_v = f64_sub (qs ! 2) (qs ! 0);
              lower = f64_sub (qs ! 0) (f64_mul (Fin 1.5) iqr_v);
              upper = f64_add (qs ! 2) (f64_mul (Fin 1.5) iqr_v);
              sk = (if skew then Some (skew_lib xs) else None)
          in (case (if gaussian_test then map_sum id Some (shapiro_lib xs) else Inr None) of
                Inl e \<Rightarrow> Inl e
              | Inr sh \<Rightarrow>
                  let outl = df_select df (outlier_mask xs lower upper)
                  in (case py_truediv (int (len_df outl) * 100) (int (len_df df)) of
                        Inl e \<Rightarrow> Inl e
                      | Inr pct \<Rightarrow>
                          Inr \<lparr>quants = qs, iqr = iqr_v, lowerBound = lower, upperBound = upper,
                               skew_printed = sk,
                               skew_message = (case sk of None \<Rightarrow> None | Some s \<Rightarrow> skew_text s),
                               shapiro_printed = sh,
                               gaussian_message = map_option (\<lambda>(stat, p). gaussian_text p) sh,
                               outliers = outl,
                               outliers_percent = py_round pct 2\<rparr>))))"


section \<open>\<open>study_column_discrete\<close> and \<open>study_column_categorical\<close>\<close>

text \<open>
  Both functions return nothing: they print and then draw. What is kept of a call is what
  it printed and the exception that ended it, if any. The drawing calls are library
  functions taken as parameters that return or raise, since whether seaborn or matplotlib
  accept their arguments is not decided by this module: \<open>barplot_lib\<close> receives the column
  (the source passes its \<open>unique()\<close> and \<open>value_counts()\<close>), \<open>countplot_lib\<close> and
  \<open>histplot_lib\<close> the frame, the column name and the target name, \<open>pie_lib\<close> the column
  (the source passes the labels and sizes of its \<open>value_counts()\<close>).

  Under \<open>print_stats\<close>, \<open>study_column_discrete\<close> prints the mean, the median, the standard
  deviation and the mode \<open>df[col].mode()[0]\<close>; of these the model keeps the mode. On a
  numeric column the first three return. On an object column that holds a string they
  raise \<open>TypeError\<close>; on one that holds no value they return NaN and \<open>mode()[0]\<close> raises
  \<open>KeyError\<close>. Then \<open>if target:\<close> chooses the count plot, and otherwise the bar plot reads
  the column again. \<open>study_column_categorical\<close> prints the mode and the number of unique
  values (\<open>unique()\<close> counts the missing value as one of them) of a column of either type,
  draws the pie chart and, for a target other than the column, the histogram.
\<close>

datatype cell = NaN | IntCell int | FloatCell real | StrCell string

record discrete_out =
  mode_line :: "real option"
  raised :: "py_error option"

definition study_column_discrete ::
  "(column \<Rightarrow> py_error option) \<Rightarrow> (dataframe \<Rightarrow> string \<Rightarrow> string \<Rightarrow> py_error option) \<Rightarrow>
   dataframe \<Rightarrow> string \<Rightarrow> string option \<Rightarrow> bool \<Rightarrow> discrete_out" where
  "study_column_discrete barplot_lib countplot_lib df col target print_stats =
     (case (if print_stats then
              (case getitem df col of
                 Inl e \<Rightarrow> Inl e
               | Inr (NumCol xs) \<Rightarrow> map_sum id Some (first_item (series_mode xs))
               | Inr (ObjCol xs) \<Rightarrow> if dropna xs = [] then Inl KeyError else Inl TypeError)
            else Inr None) of
        Inl e \<Rightarrow> \<lparr>mode_line = None, raised = Some e\<rparr>
      | Inr m \<Rightarrow>
          \<lparr>mode_line = m,
           raised = (case target of
                       Some (t # ts) \<Rightarrow> countplot_lib df col (t # ts)
                     | _ \<Rightarrow> (case getitem df col of Inl e \<Rightarrow> Some e | Inr c \<Rightarrow> barplot_lib c))\<rparr>)"

record categorical_out =
  mode_printed :: "cell option"
  unique_printed :: "nat option"
  cat_raised :: "py_error option"

fun column_mode :: "column \<Rightarrow> py_error + cell" where
  "column_mode (NumCol xs) = map_sum id FloatCell (first_item (series_mode xs))"
| "column_mode (ObjCol xs) = map_sum id StrCell (first_item (series_mode xs))"

fun column_nunique :: "column \<Rightarrow> nat" where
  "column_nunique (NumCol xs) = length (remdups xs)"
| "column_nunique (ObjCol xs) = length (remdups xs)"

definition study_column_categorical ::
  "(column \<Rightarrow> py_error option) \<Rightarrow> (dataframe \<Rightarrow> string \<Rightarrow> string \<Rightarrow> py_error option) \<Rightarrow>
   dataframe \<Rightarrow> string \<Rightarrow> string option \<Rightarrow> categorical_out" where
  "study_column_categorical pie_lib histplot_lib df col target =
     (case getitem df col of
        Inl e \<Rightarrow> \<lparr>mode_printed = None, unique_printed = None, cat_raised = Some e\<rparr>
      | Inr c \<Rightarrow>
          (case column_mode c of
             Inl e \<Rightarrow> \<lparr>mode_printed = None, unique_printed = None, cat_raised = Some e\<rparr>
           | Inr m \<Rightarrow>
               \<lparr>mode_printed = Some m, unique_printed = Some (column_nunique c),
                cat_raised =
                  (case pie_lib c of
                     Some e \<Rightarrow> Some e
                   | None \<Rightarrow>
                       (case target of
                          Some (t # ts) \<Rightarrow>
                            if t # ts \<noteq> col then histplot_lib df col (t # ts) else None
                        | _ \<Rightarrow> None))\<rparr>))"

section \<open>\<open>count_outliers_per_column\<close>\<close>

text \<open>
  The result frame mixes strings, integers and floats, so it is kept row by row: its
  column names and, for every row, one cell per column. \<open>pd.DataFrame(columns=...)\<close> is a
  frame with the given columns and no row. \<open>append(record, ignore_index=True)\<close> adds the
  record's keys that are not yet columns after the existing ones, and adds one row that
  holds the record's values; every cell that has no value is missing (NaN). A count is
  kept as the integer that the record holds; pandas may store it in a float column, with
  the same value.
\<close>

record frame =
  fr_columns :: "string list"
  fr_rows :: "cell list list"

definition new_frame :: "string list \<Rightarrow> frame" where
  "new_frame cols = \<lparr>fr_columns = cols, fr_rows = []\<rparr>"

definition frame_append :: "frame \<Rightarrow> (string \<times> cell) list \<Rightarrow> frame" where
  "frame_append fr rec =
     (let cols = fr_columns fr @ filter (\<lambda>k. k \<notin> set (fr_columns fr)) (remdups (map fst rec))
      in \<lparr>fr_columns = cols,
          fr_rows = map (\<lambda>r. r @ replicate (length cols - length r) NaN) (fr_rows fr)
                    @ [map (\<lambda>c. case map_of rec c of None \<Rightarrow> NaN | Some v \<Rightarrow> v) cols]\<rparr>)"

definition frame_cell :: "frame \<Rightarrow> nat \<Rightarrow> string \<Rightarrow> cell option" where
  "frame_cell fr i c = map_of (zip (fr_columns fr) (fr_rows fr ! i)) c"

definition num_high_outliers :: "dataframe \<Rightarrow> pyfloat list \<Rightarrow> nat" where
  "num_high_outliers df xs =
     len_df (df_select df
       (map (\<lambda>v. f64_gt (cell_float v)
                    (f64_add (series_quantile xs 0.75)
                       (f64_mul (Fin 1.5)
                          (f64_sub (series_quantile xs 0.75) (series_quantile xs 0.25))))) xs))"

definition num_low_outliers :: "dataframe \<Rightarrow> pyfloat list \<Rightarrow> nat" where
  "num_low_outliers df xs =
     len_df (df_select df
       (map (\<lambda>v. f64_lt (cell_float v)
                    (f64_sub (series_quantile xs 0.25)
                       (f64_mul (Fin 1.5)
                          (f64_sub (series_quantile xs 0.75) (series_quantile xs 0.25))))) xs))"

text \<open>The record appended for one column: the body of the loop.\<close>

definition outlier_record :: "dataframe \<Rightarrow> string \<Rightarrow> py_error + (string \<times> cell) list" where
  "outlier_record df col =
     (case getitem df col of
        Inl e \<Rightarrow> Inl e
      | Inr (ObjCol _) \<Rightarrow> Inl TypeError
      | Inr (NumCol xs) \<Rightarrow>
          (case py_truediv (int (num_high_outliers df xs) * 100) (int (len_df df)) of
             Inl e \<Rightarrow> Inl e
           | Inr high \<Rightarrow>
               (case py_truediv (int (num_low_outliers df xs) * 100) (int (len_df df)) of
                  Inl e \<Rightarrow> Inl e
                | Inr low \<Rightarrow>
                    Inr [(''Column'', StrCell col),
                         (''Number of High outliers'', IntCell (int (num_high_outliers df xs))),
                         (''Number of Low outliers'', IntCell (int (num_low_outliers df xs))),
                         (''High outliers %'', FloatCell (py_round high 2)),
                         (''Low outliers %'', FloatCell (py_round low 2))])))"

fun count_loop :: "dataframe \<Rightarrow> string list \<Rightarrow> frame \<Rightarrow> py_error + frame" where
  "count_loop df [] outl = Inr outl"
| "count_loop df (col # cols) outl =
     (case outlier_record df col of
        Inl e \<Rightarrow> Inl e
      | Inr rec \<Rightarrow> count_loop df cols (frame_append outl rec))"

definition count_outliers_per_column :: "dataframe \<Rightarrow> py_error + frame" where
  "count_outliers_per_column df =
     count_loop df (select_dtypes_number df)
       (new_frame [''Column'', ''Number of high outliers'', ''Number of low outliers''])"


section \<open>The binary64 rounding\<close>

text \<open>
  \<open>ilog2\<close> is the binary exponent of a positive number. \<open>fl64\<close> is monotone, it leaves
  every number \<open>M * 2 ^ k\<close> with \<open>\<bar>M\<bar> \<le> 2 ^ 53\<close> and \<open>k \<ge> - 1074\<close> unchanged, its
  values are such numbers, and it is at most half a unit in the last place away from its
  argument.
\<close>

lemma pow2_powi: "pow2 e = 2 powi e"
  by (simp add: pow2_def power_int_def power_one_over)

lemma pow2_pos: "0 < pow2 e"
  by (simp add: pow2_powi)

lemma pow2_add: "pow2 (a + b) = pow2 a * pow2 b"
  by (simp add: pow2_powi power_int_add)

lemma pow2_nat: "pow2 (int n) = 2 ^ n"
  by (simp add: pow2_def)

lemma pow2_neg_nat: "pow2 (- int n) = 1 / 2 ^ n"
  by (simp add: pow2_powi power_int_minus inverse_eq_divide)

lemma pow2_le: "a \<le> b \<Longrightarrow> pow2 a \<le> pow2 b"
  by (simp add: pow2_powi power_int_increasing)

lemma pow2_less: "a < b \<Longrightarrow> pow2 a < pow2 b"
  by (simp add: pow2_powi power_int_strict_increasing)

lemma pow2_less_cancel: "pow2 a < pow2 b \<Longrightarrow> a < b"
  using pow2_le[of b a] by linarith

lemma pow2_diff: "pow2 (a - b) = pow2 a / pow2 b"
  by (simp add: pow2_powi power_int_diff)

lemma nat_pow_le_real:
  assumes "(2::nat) ^ a \<le> n" and "real n \<le> x"
  shows "2 ^ a \<le> x"
proof -
  have "(2::real) ^ a = real (2 ^ a)" by simp
  also have "\<dots> \<le> real n" using assms(1) by (simp only: of_nat_le_iff)
  also note assms(2)
  finally show ?thesis .
qed

lemma nat_lt_pow_real:
  assumes "n < (2::nat) ^ a" and "x < real n + 1"
  shows "x < 2 ^ a"
proof -
  have "n + 1 \<le> 2 ^ a" using assms(1) by simp
  then have "real (n + 1) \<le> real (2 ^ a)" by (simp only: of_nat_le_iff)
  then have "real n + 1 \<le> 2 ^ a" by simp
  then show ?thesis using assms(2) by linarith
qed

lemma ilog2_ge1:
  assumes "1 \<le> x"
  shows "pow2 (ilog2 x) \<le> x \<and> x < pow2 (ilog2 x + 1)"
proof -
  define n where "n = nat \<lfloor>x\<rfloor>"
  define L where "L = floorlog 2 n"
  have n0: "0 < n" using assms by (simp add: n_def)
  have b: "2 ^ (L - 1) \<le> n" "n < 2 ^ L"
    using floorlog_bounds[OF n0, of 2] by (simp_all add: L_def)
  have L1: "1 \<le> L" using b(2) n0 by (cases L) simp_all
  have e: "ilog2 x = int (L - 1)" using assms L1 by (simp add: ilog2_def bitlen_def L_def n_def)
  have e1: "ilog2 x + 1 = int L" using e L1 by simp
  have fx: "0 \<le> \<lfloor>x\<rfloor>" using assms by simp
  have rn: "real n = of_int \<lfloor>x\<rfloor>" unfolding n_def using fx by simp
  have nx: "real n \<le> x" unfolding rn by linarith
  have xn: "x < real n + 1" unfolding rn by linarith
  have lo: "2 ^ (L - 1) \<le> x" using nat_pow_le_real[OF b(1) nx] .
  have hi: "x < 2 ^ L" using nat_lt_pow_real[OF b(2) xn] .
  show ?thesis unfolding e1 pow2_nat unfolding e pow2_nat using lo hi by (rule conjI)
qed

lemma ilog2_lt1:
  assumes "0 < x" and "x < 1"
  shows "pow2 (ilog2 x) \<le> x \<and> x < pow2 (ilog2 x + 1)"
proof -
  define c where "c = \<lceil>1 / x\<rceil>"
  define k where "k = nat (c - 1)"
  define L where "L = floorlog 2 k"
  have inv: "1 < 1 / x" using assms by simp
  have c2: "2 \<le> c" unfolding c_def using inv by linarith
  have k0: "0 < k" unfolding k_def using c2 by simp
  have b: "2 ^ (L - 1) \<le> k" "k < 2 ^ L"
    using floorlog_bounds[OF k0, of 2] by (simp_all add: L_def)
  have L1: "1 \<le> L" using b(2) k0 by (cases L) simp_all
  have e: "ilog2 x = - int L" using assms(2) by (simp add: ilog2_def bitlen_def L_def k_def c_def)
  have e1: "ilog2 x + 1 = - int (L - 1)" using e L1 by simp
  have kc: "real k = of_int c - 1" unfolding k_def using c2 by simp
  have k_lt: "real k < 1 / x" unfolding kc c_def by linarith
  have k_ge: "1 / x < real k + 1 \<or> 1 / x = real k + 1" unfolding kc c_def by linarith
  have p: "0 < (2::real) ^ L" "0 < (2::real) ^ (L - 1)" by simp_all
  have up: "1 / x \<le> 2 ^ L"
  proof -
    have "k + 1 \<le> 2 ^ L" using b(2) by simp
    then have "real (k + 1) \<le> real (2 ^ L)" by (simp only: of_nat_le_iff)
    then have "real k + 1 \<le> 2 ^ L" by simp
    then show ?thesis using k_ge by linarith
  qed
  have dn: "2 ^ (L - 1) < 1 / x"
  proof -
    have "2 ^ (L - 1) \<le> real k" using nat_pow_le_real[OF b(1), of "real k"] by simp
    then show ?thesis using k_lt by linarith
  qed
  have lo: "1 / 2 ^ L \<le> x"
  proof -
    have "1 \<le> 2 ^ L * x" using up assms(1) by (simp add: pos_divide_le_eq)
    then show ?thesis using p(1) by (simp add: pos_divide_le_eq mult.commute)
  qed
  have hi: "x < 1 / 2 ^ (L - 1)"
  proof -
    have "2 ^ (L - 1) * x < 1" using dn assms(1) by (simp add: pos_less_divide_eq)
    then show ?thesis using p(2) by (simp add: pos_less_divide_eq mult.commute)
  qed
  show ?thesis unfolding e1 pow2_neg_nat unfolding e pow2_neg_nat using lo hi by (rule conjI)
qed

lemma ilog2_bounds:
  assumes "0 < x"
  shows "pow2 (ilog2 x) \<le> x" and "x < pow2 (ilog2 x + 1)"
  using ilog2_ge1[of x] ilog2_lt1[of x] assms by linarith+

lemma ilog2_unique:
  assumes "pow2 k \<le> x" and "x < pow2 (k + 1)"
  shows "ilog2 x = k"
proof -
  have x0: "0 < x" using pow2_pos[of k] assms(1) by linarith
  have "pow2 (ilog2 x) < pow2 (k + 1)" using ilog2_bounds(1)[OF x0] assms(2) by linarith
  then have a: "ilog2 x < k + 1" by (rule pow2_less_cancel)
  have "pow2 k < pow2 (ilog2 x + 1)" using ilog2_bounds(2)[OF x0] assms(1) by linarith
  then have b: "k < ilog2 x + 1" by (rule pow2_less_cancel)
  show ?thesis using a b by linarith
qed

lemma ilog2_pow2: "ilog2 (pow2 k) = k"
  by (rule ilog2_unique) (simp_all add: pow2_less)

lemma ilog2_mono:
  assumes "0 < x" and "x \<le> y"
  shows "ilog2 x \<le> ilog2 y"
proof -
  have y0: "0 < y" using assms by linarith
  have "pow2 (ilog2 x) < pow2 (ilog2 y + 1)"
    using ilog2_bounds(1)[OF assms(1)] ilog2_bounds(2)[OF y0] assms(2) by linarith
  then have "ilog2 x < ilog2 y + 1" by (rule pow2_less_cancel)
  then show ?thesis by linarith
qed

lemma round_half_even_int: "round_half_even (of_int k) = k"
  by (simp add: round_half_even_def)

lemma round_half_even_floor:
  "\<lfloor>x\<rfloor> \<le> round_half_even x" "round_half_even x \<le> \<lfloor>x\<rfloor> + 1"
  by (simp_all add: round_half_even_def Let_def)

lemma round_half_even_mono:
  assumes "x \<le> y"
  shows "round_half_even x \<le> round_half_even y"
proof (cases "\<lfloor>x\<rfloor> = \<lfloor>y\<rfloor>")
  case True
  have "x - of_int \<lfloor>y\<rfloor> \<le> y - of_int \<lfloor>y\<rfloor>" using assms by linarith
  then show ?thesis unfolding round_half_even_def Let_def True by auto
next
  case False
  have "\<lfloor>x\<rfloor> \<le> \<lfloor>y\<rfloor>" using assms by (rule floor_mono)
  then have "\<lfloor>x\<rfloor> + 1 \<le> \<lfloor>y\<rfloor>" using False by linarith
  then show ?thesis using round_half_even_floor(2)[of x] round_half_even_floor(1)[of y] by linarith
qed

lemma round_half_even_near:
  "\<bar>x - of_int (round_half_even x)\<bar> \<le> 1 / 2"
  "\<bar>x - of_int (round_half_even x)\<bar> = 1 / 2 \<Longrightarrow> even (round_half_even x)"
proof -
  let ?f = "\<lfloor>x\<rfloor>"
  let ?d = "x - of_int ?f"
  have d0: "0 \<le> ?d" and d1: "?d < 1" by linarith+
  consider (lo) "?d < 1 / 2" | (hi) "1 / 2 < ?d" | (tie) "?d = 1 / 2" by linarith
  then have "\<bar>x - of_int (round_half_even x)\<bar> \<le> 1 / 2
     \<and> (\<bar>x - of_int (round_half_even x)\<bar> = 1 / 2 \<longrightarrow> even (round_half_even x))"
  proof cases
    case lo
    then have r: "round_half_even x = ?f" by (simp add: round_half_even_def Let_def)
    show ?thesis unfolding r using lo d0 by auto
  next
    case hi
    then have r: "round_half_even x = ?f + 1" by (simp add: round_half_even_def Let_def)
    have "x - of_int (?f + 1) = ?d - 1" by simp
    then show ?thesis unfolding r using hi d1 by auto
  next
    case tie
    show ?thesis
    proof (cases "even ?f")
      case True
      then have r: "round_half_even x = ?f" using tie by (simp add: round_half_even_def Let_def)
      show ?thesis unfolding r using tie True by auto
    next
      case False
      then have r: "round_half_even x = ?f + 1" using tie by (simp add: round_half_even_def Let_def)
      have "x - of_int (?f + 1) = ?d - 1" by simp
      then show ?thesis unfolding r using tie False by auto
    qed
  qed
  then show "\<bar>x - of_int (round_half_even x)\<bar> \<le> 1 / 2"
    "\<bar>x - of_int (round_half_even x)\<bar> = 1 / 2 \<Longrightarrow> even (round_half_even x)" by blast+
qed

lemma fl64_zero: "fl64 0 = 0"
  by (simp add: fl64_def)

lemma fl64_pos:
  "0 < x \<Longrightarrow> fl64 x = of_int (round_half_even (x / pow2 (max (ilog2 x) (- 1022) - 52)))
                       * pow2 (max (ilog2 x) (- 1022) - 52)"
  by (simp add: fl64_def Let_def)

lemma fl64_minus: "fl64 (- x) = - fl64 x"
  by (simp add: fl64_def Let_def)

lemma pow2_53: "pow2 (e + 53) = 2 ^ 53 * pow2 e"
proof -
  have "pow2 (e + int 53) = pow2 e * pow2 (int 53)" by (rule pow2_add)
  then show ?thesis unfolding pow2_nat by simp
qed

lemma pow2_52: "pow2 (e + 52) = 2 ^ 52 * pow2 e"
proof -
  have "pow2 (e + int 52) = pow2 e * pow2 (int 52)" by (rule pow2_add)
  then show ?thesis unfolding pow2_nat by simp
qed

lemma significand_le:
  assumes "0 < x" and "ilog2 x - 52 \<le> e"
  shows "round_half_even (x / pow2 e) \<le> 2 ^ 53"
proof -
  have "ilog2 x + 1 \<le> e + 53" using assms(2) by linarith
  then have "pow2 (ilog2 x + 1) \<le> pow2 (e + 53)" by (rule pow2_le)
  then have "x < 2 ^ 53 * pow2 e" using ilog2_bounds(2)[OF assms(1)] unfolding pow2_53 by linarith
  then have "x / pow2 e < 2 ^ 53" using pow2_pos[of e] by (simp add: pos_divide_less_eq)
  then have "x / pow2 e \<le> of_int (2 ^ 53)" by simp
  then have "round_half_even (x / pow2 e) \<le> round_half_even (of_int (2 ^ 53))"
    by (rule round_half_even_mono)
  then show ?thesis unfolding round_half_even_int .
qed

lemma significand_ge:
  assumes "0 < x" and "e \<le> ilog2 x - 52"
  shows "2 ^ 52 \<le> round_half_even (x / pow2 e)"
proof -
  have "e + 52 \<le> ilog2 x" using assms(2) by linarith
  then have "pow2 (e + 52) \<le> pow2 (ilog2 x)" by (rule pow2_le)
  then have "2 ^ 52 * pow2 e \<le> x" using ilog2_bounds(1)[OF assms(1)] unfolding pow2_52 by linarith
  then have "2 ^ 52 \<le> x / pow2 e" using pow2_pos[of e] by (simp add: pos_le_divide_eq)
  then have "of_int (2 ^ 52) \<le> x / pow2 e" by simp
  then have "round_half_even (of_int (2 ^ 52)) \<le> round_half_even (x / pow2 e)"
    by (rule round_half_even_mono)
  then show ?thesis unfolding round_half_even_int .
qed

lemma significand_nonneg:
  assumes "0 \<le> y"
  shows "0 \<le> round_half_even y"
proof -
  have "(of_int 0 :: real) \<le> y" using assms by simp
  then have "round_half_even (of_int 0) \<le> round_half_even y" by (rule round_half_even_mono)
  then show ?thesis unfolding round_half_even_int .
qed

lemma fl64_nonneg:
  assumes "0 \<le> x"
  shows "0 \<le> fl64 x"
proof (cases "x = 0")
  case True
  then show ?thesis by (simp add: fl64_zero)
next
  case False
  then have x0: "0 < x" using assms by linarith
  let ?e = "max (ilog2 x) (- 1022) - 52"
  have "0 \<le> x / pow2 ?e" using x0 pow2_pos[of ?e] by simp
  then have "0 \<le> round_half_even (x / pow2 ?e)" by (rule significand_nonneg)
  then show ?thesis unfolding fl64_pos[OF x0] using pow2_pos[of ?e] by simp
qed

lemma fl64_mono_pos:
  assumes "0 < x" and "x \<le> y"
  shows "fl64 x \<le> fl64 y"
proof -
  define ex where "ex = max (ilog2 x) (- 1022) - 52"
  define ey where "ey = max (ilog2 y) (- 1022) - 52"
  have y0: "0 < y" using assms by linarith
  have fx: "fl64 x = of_int (round_half_even (x / pow2 ex)) * pow2 ex"
    unfolding ex_def by (rule fl64_pos[OF assms(1)])
  have fy: "fl64 y = of_int (round_half_even (y / pow2 ey)) * pow2 ey"
    unfolding ey_def by (rule fl64_pos[OF y0])
  have il: "ilog2 x \<le> ilog2 y" using assms by (rule ilog2_mono)
  then have le: "ex \<le> ey" unfolding ex_def ey_def by linarith
  show ?thesis
  proof (cases "ex = ey")
    case True
    have "x / pow2 ey \<le> y / pow2 ey" using assms(2) pow2_pos[of ey] by (simp add: divide_right_mono)
    then have "round_half_even (x / pow2 ey) \<le> round_half_even (y / pow2 ey)"
      by (rule round_half_even_mono)
    then have "(of_int (round_half_even (x / pow2 ey)) :: real) \<le> of_int (round_half_even (y / pow2 ey))"
      by simp
    then show ?thesis unfolding fx fy True using pow2_pos[of ey] by (simp add: mult_right_mono)
  next
    case False
    then have lt: "ex + 1 \<le> ey" using le by linarith
    have "ilog2 x - 52 \<le> ex" unfolding ex_def by linarith
    then have "round_half_even (x / pow2 ex) \<le> 2 ^ 53" by (rule significand_le[OF assms(1)])
    then have "(of_int (round_half_even (x / pow2 ex)) :: real) \<le> of_int (2 ^ 53)"
      by (simp only: of_int_le_iff)
    then have "of_int (round_half_even (x / pow2 ex)) * pow2 ex \<le> 2 ^ 53 * pow2 ex"
      using pow2_pos[of ex] by (simp add: mult_right_mono)
    then have a: "fl64 x \<le> pow2 (ex + 53)" unfolding fx pow2_53 .
    have "ex + 53 \<le> ey + 52" using lt by linarith
    then have b: "pow2 (ex + 53) \<le> pow2 (ey + 52)" by (rule pow2_le)
    have "- 1074 \<le> ex" unfolding ex_def by linarith
    then have "ey \<le> ilog2 y - 52" using lt unfolding ey_def by linarith
    then have "2 ^ 52 \<le> round_half_even (y / pow2 ey)" by (rule significand_ge[OF y0])
    then have "(of_int (2 ^ 52) :: real) \<le> of_int (round_half_even (y / pow2 ey))"
      by (simp only: of_int_le_iff)
    then have "2 ^ 52 * pow2 ey \<le> of_int (round_half_even (y / pow2 ey)) * pow2 ey"
      using pow2_pos[of ey] by (simp add: mult_right_mono)
    then have c: "pow2 (ey + 52) \<le> fl64 y" unfolding fy pow2_52 .
    show ?thesis using a b c by linarith
  qed
qed

lemma fl64_mono:
  assumes "x \<le> y"
  shows "fl64 x \<le> fl64 y"
proof -
  consider (pos) "0 < x" | (mid) "x \<le> 0" "0 \<le> y" | (neg) "y < 0" using assms by linarith
  then show ?thesis
  proof cases
    case pos
    then show ?thesis using assms by (rule fl64_mono_pos)
  next
    case mid
    have "0 \<le> fl64 (- x)" using mid(1) by (intro fl64_nonneg) simp
    then have "fl64 x \<le> 0" unfolding fl64_minus by simp
    moreover have "0 \<le> fl64 y" using mid(2) by (rule fl64_nonneg)
    ultimately show ?thesis by linarith
  next
    case neg
    have "0 < - y" "- y \<le> - x" using neg assms by simp_all
    then have "fl64 (- y) \<le> fl64 (- x)" by (rule fl64_mono_pos)
    then show ?thesis unfolding fl64_minus by simp
  qed
qed

lemma fl64_exact_pos:
  assumes "0 < M" and "M < 2 ^ 53" and "- 1074 \<le> k"
  shows "fl64 (of_int M * pow2 k) = of_int M * pow2 k"
proof -
  define x where "x = of_int M * pow2 k"
  define e where "e = max (ilog2 x) (- 1022) - 52"
  have x0: "0 < x" unfolding x_def using assms(1) pow2_pos[of k] by simp
  have "(of_int M :: real) < of_int (2 ^ 53)" using assms(2) by (simp only: of_int_less_iff)
  then have "x < 2 ^ 53 * pow2 k" unfolding x_def using pow2_pos[of k] by simp
  then have "pow2 (ilog2 x) < pow2 (k + 53)" using ilog2_bounds(1)[OF x0] unfolding pow2_53 by linarith
  then have "ilog2 x < k + 53" by (rule pow2_less_cancel)
  then have ek: "e \<le> k" unfolding e_def using assms(3) by linarith
  define j where "j = nat (k - e)"
  have kj: "k = e + int j" unfolding j_def using ek by simp
  have pk: "pow2 k = pow2 e * 2 ^ j" unfolding kj pow2_add pow2_nat by (rule refl)
  have "x / pow2 e = of_int M * 2 ^ j" unfolding x_def pk using pow2_pos[of e] by simp
  also have "\<dots> = of_int (M * 2 ^ j)" by simp
  finally have q: "x / pow2 e = of_int (M * 2 ^ j)" .
  have "fl64 x = of_int (round_half_even (x / pow2 e)) * pow2 e"
    unfolding e_def by (rule fl64_pos[OF x0])
  also have "\<dots> = of_int (M * 2 ^ j) * pow2 e" unfolding q round_half_even_int by (rule refl)
  also have "\<dots> = x" unfolding x_def pk by simp
  finally show ?thesis unfolding x_def .
qed

lemma fl64_exact_nonneg:
  assumes "0 \<le> M" and "M \<le> 2 ^ 53" and "- 1074 \<le> k"
  shows "fl64 (of_int M * pow2 k) = of_int M * pow2 k"
proof -
  consider (zero) "M = 0" | (mid) "0 < M" "M < 2 ^ 53" | (top) "M = 2 ^ 53" using assms by linarith
  then show ?thesis
  proof cases
    case zero
    then show ?thesis by (simp add: fl64_zero)
  next
    case mid
    then show ?thesis using assms(3) by (rule fl64_exact_pos)
  next
    case top
    have "pow2 (k + 1) = pow2 k * pow2 (int 1)" unfolding pow2_add by simp
    then have p: "pow2 (k + 1) = pow2 k * 2" unfolding pow2_nat by simp
    have e: "of_int M * pow2 k = of_int (2 ^ 52) * pow2 (k + 1)" unfolding top p by simp
    have "fl64 (of_int (2 ^ 52) * pow2 (k + 1)) = of_int (2 ^ 52) * pow2 (k + 1)"
      using assms(3) by (intro fl64_exact_pos) simp_all
    then show ?thesis unfolding e .
  qed
qed

lemma fl64_exact:
  assumes "\<bar>M\<bar> \<le> 2 ^ 53" and "- 1074 \<le> k"
  shows "fl64 (of_int M * pow2 k) = of_int M * pow2 k"
proof (cases "0 \<le> M")
  case True
  then show ?thesis using assms by (intro fl64_exact_nonneg) simp_all
next
  case False
  then have "fl64 (of_int (- M) * pow2 k) = of_int (- M) * pow2 k"
    using assms by (intro fl64_exact_nonneg) simp_all
  then have "fl64 (- (of_int M * pow2 k)) = - (of_int M * pow2 k)" by simp
  then show ?thesis unfolding fl64_minus by simp
qed

lemma fl64_pow2: "- 1074 \<le> k \<Longrightarrow> fl64 (pow2 k) = pow2 k"
  using fl64_exact[of 1 k] by simp

lemma fl64_form:
  "\<exists>M k. fl64 x = of_int M * pow2 k \<and> \<bar>M\<bar> \<le> 2 ^ 53 \<and> - 1074 \<le> k"
proof -
  have pos: "\<exists>M k. fl64 y = of_int M * pow2 k \<and> \<bar>M\<bar> \<le> 2 ^ 53 \<and> - 1074 \<le> k" if y0: "0 < y" for y
  proof -
    define e where "e = max (ilog2 y) (- 1022) - 52"
    define m where "m = round_half_even (y / pow2 e)"
    have f: "fl64 y = of_int m * pow2 e" unfolding m_def e_def by (rule fl64_pos[OF y0])
    have "ilog2 y - 52 \<le> e" unfolding e_def by linarith
    then have m1: "m \<le> 2 ^ 53" unfolding m_def by (rule significand_le[OF y0])
    have "0 \<le> y / pow2 e" using y0 pow2_pos[of e] by simp
    then have m0: "0 \<le> m" unfolding m_def by (rule significand_nonneg)
    have e0: "- 1074 \<le> e" unfolding e_def by linarith
    show ?thesis using f m0 m1 e0 by (intro exI[of _ m] exI[of _ e]) simp
  qed
  consider (zero) "x = 0" | (p) "0 < x" | (n) "0 < - x" by linarith
  then show ?thesis
  proof cases
    case zero
    show ?thesis unfolding zero fl64_zero by (intro exI[of _ 0] exI[of _ 0]) simp
  next
    case p
    then show ?thesis by (rule pos)
  next
    case n
    obtain M k where "fl64 (- x) = of_int M * pow2 k" "\<bar>M\<bar> \<le> 2 ^ 53" "- 1074 \<le> k"
      using pos[OF n] by blast
    then have "fl64 x = of_int (- M) * pow2 k \<and> \<bar>- M\<bar> \<le> 2 ^ 53 \<and> - 1074 \<le> k"
      unfolding fl64_minus by simp
    then show ?thesis by blast
  qed
qed

lemma fl64_idem: "fl64 (fl64 x) = fl64 x"
proof -
  obtain M k where f: "fl64 x = of_int M * pow2 k" and m: "\<bar>M\<bar> \<le> 2 ^ 53" and k: "- 1074 \<le> k"
    using fl64_form[of x] by blast
  show ?thesis unfolding f using m k by (rule fl64_exact)
qed

lemma fl64_grid: "\<exists>A. fl64 x = of_int A * pow2 (- 1074)"
proof -
  obtain M k where f: "fl64 x = of_int M * pow2 k" and k: "- 1074 \<le> k"
    using fl64_form[of x] by blast
  define j where "j = nat (k + 1074)"
  have kj: "k = - 1074 + int j" unfolding j_def using k by simp
  have "pow2 k = pow2 (- 1074) * 2 ^ j" unfolding kj pow2_add pow2_nat by (rule refl)
  then have "fl64 x = of_int (M * 2 ^ j) * pow2 (- 1074)" unfolding f by simp
  then show ?thesis by blast
qed

lemma representable_gap:
  assumes "fl64 a = a" and "fl64 b = b" and "a < b"
  shows "pow2 (- 1074) \<le> b - a"
proof -
  obtain A where a: "a = of_int A * pow2 (- 1074)" using fl64_grid[of a] assms(1) by auto
  obtain B where b: "b = of_int B * pow2 (- 1074)" using fl64_grid[of b] assms(2) by auto
  have d: "b - a = of_int (B - A) * pow2 (- 1074)" unfolding a b by (simp add: algebra_simps)
  have "0 < of_int (B - A) * pow2 (- 1074)" using assms(3) unfolding d[symmetric] by simp
  then have "0 < (of_int (B - A) :: real)" using pow2_pos[of "- 1074"] by (simp add: zero_less_mult_iff)
  then have "1 \<le> B - A" by simp
  then have "(1::real) \<le> of_int (B - A)" by (simp only: of_int_1_le_iff)
  then have "1 * pow2 (- 1074) \<le> of_int (B - A) * pow2 (- 1074)"
    using pow2_pos[of "- 1074"] by (intro mult_right_mono) simp_all
  then show ?thesis unfolding d by simp
qed

lemma fl64_scaled_le:
  assumes "pow2 (- 1074) \<le> x" and "0 \<le> s" and "s \<le> 1 / 2"
  shows "0 \<le> fl64 (fl64 x * s)" and "fl64 (fl64 x * s) \<le> x"
proof -
  define l where "l = ilog2 x"
  have x0: "0 < x" using assms(1) pow2_pos[of "- 1074"] by linarith
  have "ilog2 (pow2 (- 1074)) \<le> ilog2 x" using pow2_pos assms(1) by (rule ilog2_mono)
  then have l0: "- 1074 \<le> l" unfolding l_def ilog2_pow2 .
  have l1: "- 1074 \<le> l + 1" using l0 by linarith
  have lo: "pow2 l \<le> x" unfolding l_def by (rule ilog2_bounds(1)[OF x0])
  have hi: "x \<le> pow2 (l + 1)" unfolding l_def using ilog2_bounds(2)[OF x0] by linarith
  have "pow2 (l + 1) = pow2 l * pow2 (int 1)" unfolding pow2_add by simp
  then have p: "pow2 (l + 1) = pow2 l * 2" unfolding pow2_nat by simp
  have "fl64 x \<le> fl64 (pow2 (l + 1))" using hi by (rule fl64_mono)
  then have "fl64 x \<le> pow2 (l + 1)" unfolding fl64_pow2[OF l1] .
  then have d1: "fl64 x \<le> pow2 l * 2" unfolding p .
  have d0: "0 \<le> fl64 x" using x0 by (intro fl64_nonneg) simp
  have w0: "0 \<le> fl64 x * s" using d0 assms(2) by simp
  then show "0 \<le> fl64 (fl64 x * s)" by (rule fl64_nonneg)
  have "fl64 x * s \<le> (pow2 l * 2) * (1 / 2)"
    using d1 d0 assms(2,3) pow2_pos[of l] by (intro mult_mono) simp_all
  then have "fl64 x * s \<le> pow2 l" by simp
  then have "fl64 (fl64 x * s) \<le> fl64 (pow2 l)" by (rule fl64_mono)
  then show "fl64 (fl64 x * s) \<le> x" unfolding fl64_pow2[OF l0] using lo by linarith
qed

lemma fl64_abs_le:
  assumes "\<bar>x\<bar> \<le> pow2 k" and "- 1074 \<le> k"
  shows "\<bar>fl64 x\<bar> \<le> pow2 k"
proof -
  have "fl64 x \<le> fl64 (pow2 k)" using assms(1) by (intro fl64_mono) linarith
  then have a: "fl64 x \<le> pow2 k" unfolding fl64_pow2[OF assms(2)] .
  have "fl64 (- pow2 k) \<le> fl64 x" using assms(1) by (intro fl64_mono) linarith
  then have b: "- pow2 k \<le> fl64 x" unfolding fl64_minus fl64_pow2[OF assms(2)] .
  show ?thesis using a b by linarith
qed

lemma pow2_1023: "pow2 1023 < 2 ^ 1024"
proof -
  have "pow2 (int 1023) = 2 ^ 1023" by (rule pow2_nat)
  then show ?thesis by simp
qed

lemma to_float64_Fin:
  assumes "\<bar>x\<bar> \<le> pow2 1023"
  shows "to_float64 x = Fin (fl64 x)"
proof -
  have "\<bar>fl64 x\<bar> \<le> pow2 1023" using assms by (rule fl64_abs_le) simp
  then have "\<not> 2 ^ 1024 \<le> \<bar>fl64 x\<bar>" using pow2_1023 by linarith
  then show ?thesis unfolding to_float64_def Let_def by (rule if_not_P)
qed

lemma to_float64_exact:
  assumes "fl64 x = x" and "\<bar>x\<bar> < 2 ^ 1024"
  shows "to_float64 x = Fin x"
proof -
  have "\<not> 2 ^ 1024 \<le> \<bar>fl64 x\<bar>" unfolding assms(1) using assms(2) by linarith
  then have "to_float64 x = Fin (fl64 x)" unfolding to_float64_def Let_def by (rule if_not_P)
  then show ?thesis unfolding assms(1) .
qed

lemma to_float64_zero: "to_float64 0 = Fin 0"
  by (rule to_float64_exact) (simp_all add: fl64_zero)

section \<open>Interpolation in binary64\<close>

text \<open>
  For binary64 numbers \<open>a \<le> b\<close> of magnitude at most \<open>2 ^ 1022\<close> the difference \<open>b - a\<close>
  does not overflow, and numpy's \<open>_lerp\<close> returns a binary64 number between \<open>a\<close> and
  \<open>b\<close> for every weight between 0 and 1.
\<close>

lemma f64_sub_Fin: "f64_sub (Fin x) (Fin y) = to_float64 (x - y)"
  by (simp add: f64_sub_def)

lemma f64_nan:
  "f64_sub FNaN b = FNaN" "f64_sub a FNaN = FNaN" "f64_add FNaN b = FNaN" "f64_add a FNaN = FNaN"
  "f64_mul FNaN b = FNaN" "f64_mul a FNaN = FNaN"
  "f64_lt FNaN b = False" "f64_lt a FNaN = False" "f64_gt FNaN b = False" "f64_gt a FNaN = False"
  by (cases a; cases b; simp add: f64_sub_def f64_gt_def)+

lemma pow2_1022: "pow2 1022 * 2 = pow2 1023"
proof -
  have "pow2 (1022 + int 1) = pow2 1022 * pow2 (int 1)" by (rule pow2_add)
  then show ?thesis unfolding pow2_nat by simp
qed

lemma fl64_half: "fl64 (1 / 2) = 1 / 2"
proof -
  have "fl64 (of_int 1 * pow2 (- int 1)) = of_int 1 * pow2 (- int 1)"
    by (rule fl64_exact) simp_all
  then show ?thesis unfolding pow2_neg_nat by simp
qed

lemma fl64_one: "fl64 1 = 1"
proof -
  have "fl64 (of_int 1 * pow2 (int 0)) = of_int 1 * pow2 (int 0)"
    by (rule fl64_exact) simp_all
  then show ?thesis unfolding pow2_nat by simp
qed

lemma one_le_pow2_1023: "1 \<le> pow2 1023"
proof -
  have "pow2 (int 0) \<le> pow2 1023" by (rule pow2_le) simp
  then show ?thesis unfolding pow2_nat by simp
qed

text \<open>The product of the rounded difference with a weight of at most one half.\<close>

lemma lerp_step:
  assumes "fl64 a = a" and "fl64 b = b" and "a \<le> b"
      and "\<bar>a\<bar> \<le> pow2 1022" and "\<bar>b\<bar> \<le> pow2 1022"
      and "0 \<le> s" and "s \<le> 1 / 2"
  shows "\<exists>w. f64_mul (f64_sub (Fin b) (Fin a)) (Fin s) = Fin w \<and> 0 \<le> w \<and> w \<le> b - a"
proof -
  define x where "x = b - a"
  define d where "d = fl64 x"
  define w where "w = fl64 (d * s)"
  have x0: "0 \<le> x" unfolding x_def using assms(3) by linarith
  have "\<bar>x\<bar> \<le> pow2 1022 * 2" unfolding x_def using assms(4,5) by linarith
  then have xb: "\<bar>x\<bar> \<le> pow2 1023" unfolding pow2_1022 .
  have D: "f64_sub (Fin b) (Fin a) = Fin d"
    unfolding f64_sub_Fin d_def x_def[symmetric] using xb by (rule to_float64_Fin)
  have d0: "0 \<le> d" unfolding d_def using x0 by (rule fl64_nonneg)
  have db: "\<bar>d\<bar> \<le> pow2 1023" unfolding d_def using xb by (rule fl64_abs_le) simp
  have "d * s \<le> d * 1" using d0 assms(6,7) by (intro mult_left_mono) linarith+
  then have "\<bar>d * s\<bar> \<le> pow2 1023" using d0 assms(6) db by (simp add: abs_mult)
  then have "to_float64 (d * s) = Fin w" unfolding w_def by (rule to_float64_Fin)
  then have M: "f64_mul (f64_sub (Fin b) (Fin a)) (Fin s) = Fin w" unfolding D by simp
  have "0 \<le> w \<and> w \<le> x"
  proof (cases "a = b")
    case True
    then have "d = 0" unfolding d_def x_def by (simp add: fl64_zero)
    then have "w = 0" unfolding w_def by (simp add: fl64_zero)
    then show ?thesis using x0 by simp
  next
    case False
    then have "a < b" using assms(3) by linarith
    then have g: "pow2 (- 1074) \<le> x" unfolding x_def by (rule representable_gap[OF assms(1,2)])
    show ?thesis unfolding w_def d_def using fl64_scaled_le[OF g assms(6,7)] by (rule conjI)
  qed
  then show ?thesis using M unfolding x_def by blast
qed

lemma np_lerp_between:
  assumes "fl64 a = a" and "fl64 b = b" and "a \<le> b"
      and "\<bar>a\<bar> \<le> pow2 1022" and "\<bar>b\<bar> \<le> pow2 1022"
      and "0 \<le> t" and "t \<le> 1"
  shows "\<exists>r. np_lerp a b t = Fin r \<and> a \<le> r \<and> r \<le> b \<and> fl64 r = r"
proof (cases "t < 1 / 2")
  case True
  have s: "t \<le> 1 / 2" using True by linarith
  obtain w where M: "f64_mul (f64_sub (Fin b) (Fin a)) (Fin t) = Fin w"
    and w0: "0 \<le> w" and w1: "w \<le> b - a"
    using lerp_step[OF assms(1-6) s] by blast
  define r where "r = fl64 (a + w)"
  have lo: "a \<le> a + w" and hi: "a + w \<le> b" using w0 w1 by linarith+
  have "\<bar>a + w\<bar> \<le> pow2 1022" using lo hi assms(4,5) by linarith
  then have "\<bar>a + w\<bar> \<le> pow2 1023" using pow2_1022 pow2_pos[of 1022] by linarith
  then have "to_float64 (a + w) = Fin r" unfolding r_def by (rule to_float64_Fin)
  then have L: "np_lerp a b t = Fin r" unfolding np_lerp_def Let_def M using True by simp
  have "fl64 a \<le> r" unfolding r_def using lo by (rule fl64_mono)
  then have a: "a \<le> r" unfolding assms(1) .
  have "r \<le> fl64 b" unfolding r_def using hi by (rule fl64_mono)
  then have b: "r \<le> b" unfolding assms(2) .
  have i: "fl64 r = r" unfolding r_def by (rule fl64_idem)
  show ?thesis using L a b i by blast
next
  case False
  define s where "s = fl64 (1 - t)"
  have "fl64 0 \<le> s" unfolding s_def using assms(7) by (intro fl64_mono) linarith
  then have s0: "0 \<le> s" unfolding fl64_zero .
  have "s \<le> fl64 (1 / 2)" unfolding s_def using False by (intro fl64_mono) linarith
  then have s1: "s \<le> 1 / 2" unfolding fl64_half .
  have "\<bar>1 - t\<bar> \<le> 1" using assms(6,7) by linarith
  then have "\<bar>1 - t\<bar> \<le> pow2 1023" using one_le_pow2_1023 by linarith
  then have S: "f64_sub (Fin 1) (Fin t) = Fin s"
    unfolding f64_sub_Fin s_def by (rule to_float64_Fin)
  obtain w where M: "f64_mul (f64_sub (Fin b) (Fin a)) (Fin s) = Fin w"
    and w0: "0 \<le> w" and w1: "w \<le> b - a"
    using lerp_step[OF assms(1-5) s0 s1] by blast
  define r where "r = fl64 (b - w)"
  have lo: "a \<le> b - w" and hi: "b - w \<le> b" using w0 w1 by linarith+
  have "\<bar>b - w\<bar> \<le> pow2 1022" using lo hi assms(4,5) by linarith
  then have "\<bar>b - w\<bar> \<le> pow2 1023" using pow2_1022 pow2_pos[of 1022] by linarith
  then have "to_float64 (b - w) = Fin r" unfolding r_def by (rule to_float64_Fin)
  then have "f64_sub (Fin b) (Fin w) = Fin r" unfolding f64_sub_Fin .
  then have L: "np_lerp a b t = Fin r" unfolding np_lerp_def Let_def S M using False by simp
  have "fl64 a \<le> r" unfolding r_def using lo by (rule fl64_mono)
  then have a: "a \<le> r" unfolding assms(1) .
  have "r \<le> fl64 b" unfolding r_def using hi by (rule fl64_mono)
  then have b: "r \<le> b" unfolding assms(2) .
  have i: "fl64 r = r" unfolding r_def by (rule fl64_idem)
  show ?thesis using L a b i by blast
qed

lemma np_lerp_same:
  assumes "fl64 c = c" and "\<bar>c\<bar> < 2 ^ 1024" and "\<bar>1 - t\<bar> \<le> pow2 1023"
  shows "np_lerp c c t = Fin c"
proof -
  have D: "f64_sub (Fin c) (Fin c) = Fin 0" unfolding f64_sub_Fin by (simp add: to_float64_zero)
  have C: "to_float64 c = Fin c" using assms(1,2) by (rule to_float64_exact)
  show ?thesis
  proof (cases "t < 1 / 2")
    case True
    have "f64_mul (Fin 0) (Fin t) = Fin 0" by (simp add: to_float64_zero)
    then show ?thesis unfolding np_lerp_def Let_def D using True C by simp
  next
    case False
    have S: "f64_sub (Fin 1) (Fin t) = Fin (fl64 (1 - t))"
      unfolding f64_sub_Fin using assms(3) by (rule to_float64_Fin)
    have "f64_mul (Fin 0) (Fin (fl64 (1 - t))) = Fin 0" by (simp add: to_float64_zero)
    then show ?thesis unfolding np_lerp_def Let_def D S using False C by (simp add: f64_sub_Fin)
  qed
qed

lemma np_lerp_zero:
  assumes "fl64 a = a" and "\<bar>a\<bar> \<le> pow2 1022" and "\<bar>b\<bar> \<le> pow2 1022"
  shows "np_lerp a b 0 = Fin a"
proof -
  have "\<bar>b - a\<bar> \<le> pow2 1022 * 2" using assms(2,3) by linarith
  then have "\<bar>b - a\<bar> \<le> pow2 1023" unfolding pow2_1022 .
  then have D: "f64_sub (Fin b) (Fin a) = Fin (fl64 (b - a))"
    unfolding f64_sub_Fin by (rule to_float64_Fin)
  have M: "f64_mul (Fin (fl64 (b - a))) (Fin 0) = Fin 0" by (simp add: to_float64_zero)
  have "\<bar>a\<bar> \<le> pow2 1023" using assms(2) pow2_1022 pow2_pos[of 1022] by linarith
  then have "to_float64 a = Fin (fl64 a)" by (rule to_float64_Fin)
  then have A: "to_float64 a = Fin a" unfolding assms(1) .
  show ?thesis unfolding np_lerp_def Let_def D M using A by simp
qed

text \<open>The rounding error is at most half a unit in the last place.\<close>

lemma fl64_nearest:
  assumes "x \<noteq> 0"
  shows "\<exists>m. fl64 x = sgn x * of_int m * pow2 (max (ilog2 \<bar>x\<bar>) (- 1022) - 52)
           \<and> 0 \<le> m \<and> m \<le> 2 ^ 53 \<and> (pow2 (- 1022) \<le> \<bar>x\<bar> \<longrightarrow> 2 ^ 52 \<le> m)
           \<and> \<bar>fl64 x - x\<bar> \<le> pow2 (max (ilog2 \<bar>x\<bar>) (- 1022) - 52) / 2"
proof -
  define e where "e = max (ilog2 \<bar>x\<bar>) (- 1022) - 52"
  define p where "p = pow2 e"
  define y where "y = \<bar>x\<bar> / p"
  define m where "m = round_half_even y"
  have ax: "0 < \<bar>x\<bar>" using assms by simp
  have p0: "0 < p" unfolding p_def by (rule pow2_pos)
  have f: "fl64 x = sgn x * of_int m * p"
    using assms by (simp add: fl64_def Let_def m_def y_def p_def e_def)
  have xy: "\<bar>x\<bar> = y * p" unfolding y_def using p0 by simp
  have "ilog2 \<bar>x\<bar> - 52 \<le> e" unfolding e_def by linarith
  then have m2: "m \<le> 2 ^ 53" unfolding m_def y_def p_def by (rule significand_le[OF ax])
  have "0 \<le> y" unfolding y_def using ax p0 by simp
  then have m0: "0 \<le> m" unfolding m_def by (rule significand_nonneg)
  have m1: "2 ^ 52 \<le> m" if n: "pow2 (- 1022) \<le> \<bar>x\<bar>"
  proof -
    have "ilog2 (pow2 (- 1022)) \<le> ilog2 \<bar>x\<bar>" using pow2_pos n by (rule ilog2_mono)
    then have "- 1022 \<le> ilog2 \<bar>x\<bar>" unfolding ilog2_pow2 .
    then have "e \<le> ilog2 \<bar>x\<bar> - 52" unfolding e_def by linarith
    then show ?thesis unfolding m_def y_def p_def by (rule significand_ge[OF ax])
  qed
  have near: "\<bar>y - of_int m\<bar> \<le> 1 / 2" unfolding m_def by (rule round_half_even_near(1))
  have sx: "x = sgn x * \<bar>x\<bar>" by (simp add: sgn_mult_abs)
  have "fl64 x - x = sgn x * of_int m * p - sgn x * (y * p)" unfolding f using sx xy by simp
  also have "\<dots> = sgn x * p * (of_int m - y)" by (simp add: algebra_simps)
  finally have "\<bar>fl64 x - x\<bar> = \<bar>sgn x\<bar> * p * \<bar>of_int m - y\<bar>"
    using p0 by (simp add: abs_mult)
  also have "\<bar>sgn x\<bar> = 1" using assms by (simp add: abs_sgn_eq)
  finally have "\<bar>fl64 x - x\<bar> = p * \<bar>y - of_int m\<bar>" by (simp add: abs_minus_commute)
  also have "\<dots> \<le> p * (1 / 2)" using near p0 by (intro mult_left_mono) simp_all
  finally have err: "\<bar>fl64 x - x\<bar> \<le> p / 2" by simp
  show ?thesis using f m0 m1 m2 err unfolding p_def e_def by blast
qed

text \<open>Three quarters of a positive count round to less than the count.\<close>

lemma fl64_three_quarters:
  assumes "1 \<le> m" and "0 \<le> z" and "z \<le> m * (3 / 4)"
  shows "fl64 z < m"
proof -
  define y where "y = m * (3 / 4)"
  have y1: "1 / 2 \<le> y" unfolding y_def using assms(1) by linarith
  have y0: "y \<noteq> 0" "0 < y" using y1 by linarith+
  have ay: "\<bar>y\<bar> = y" using y0 by simp
  define l where "l = ilog2 y"
  have "ilog2 (pow2 (- int 1)) \<le> ilog2 y"
    using pow2_pos y1 unfolding pow2_neg_nat by (intro ilog2_mono) simp_all
  then have l1: "- 1 \<le> l" unfolding l_def ilog2_pow2 by simp
  then have mx: "max l (- 1022) = l" by linarith
  have "\<bar>fl64 y - y\<bar> \<le> pow2 (max (ilog2 \<bar>y\<bar>) (- 1022) - 52) / 2"
    using fl64_nearest[OF y0(1)] by blast
  then have err: "\<bar>fl64 y - y\<bar> \<le> pow2 (l - 52) / 2" unfolding ay l_def[symmetric] mx .
  have "pow2 ((l - 52) + 52) = 2 ^ 52 * pow2 (l - 52)" by (rule pow2_52)
  then have "2 ^ 52 * pow2 (l - 52) = pow2 l" by simp
  also have "\<dots> \<le> y" unfolding l_def by (rule ilog2_bounds(1)[OF y0(2)])
  finally have "2 ^ 52 * pow2 (l - 52) \<le> y" .
  moreover have "4 * pow2 (l - 52) \<le> 2 ^ 52 * pow2 (l - 52)"
    using pow2_pos[of "l - 52"] by (intro mult_right_mono) simp_all
  ultimately have "4 * pow2 (l - 52) \<le> y" by linarith
  then have "fl64 y \<le> y + y / 8" using err by linarith
  then have "fl64 y < m" unfolding y_def using assms(1) by linarith
  moreover have "fl64 z \<le> fl64 y" unfolding y_def using assms(3) by (rule fl64_mono)
  ultimately show ?thesis by linarith
qed

section \<open>Properties of \<open>Series.quantile\<close>\<close>

lemma mem_dropna: "v \<in> set (dropna xs) \<longleftrightarrow> Some v \<in> set xs"
  by (induction xs) (auto simp: dropna_def List.map_filter_def)

lemma quantile_nan: "dropna xs = [] \<Longrightarrow> series_quantile xs q = FNaN"
  by (simp add: series_quantile_def)

lemma quantile_at:
  assumes "sort (dropna xs) = ys" and "ys \<noteq> []"
      and "fl64 (real (length ys - 1) * q) = h" and "h < real (length ys - 1)"
  shows "series_quantile xs q
         = np_lerp (ys ! nat \<lfloor>h\<rfloor>) (ys ! (nat \<lfloor>h\<rfloor> + 1)) (h - real (nat \<lfloor>h\<rfloor>))"
  using assms(2,4) unfolding series_quantile_def assms(1) Let_def assms(3) by simp

lemma quantile_last:
  assumes "sort (dropna xs) = ys" and "ys \<noteq> []"
      and "fl64 (real (length ys - 1) * q) = h" and "real (length ys - 1) \<le> h"
  shows "series_quantile xs q
         = np_lerp (ys ! (length ys - 1)) (ys ! (length ys - 1)) (fl64 (h + 1))"
  using assms(2,4) unfolding series_quantile_def assms(1) Let_def assms(3) by simp

lemma quantile_constant:
  assumes "set (dropna xs) = {c}" and "is_binary64 c" and "0 \<le> q" and "q \<le> 3 / 4"
  shows "series_quantile xs q = Fin c"
proof -
  define ys where "ys = sort (dropna xs)"
  define m where "m = length ys - 1"
  define h where "h = fl64 (real m * q)"
  have s: "sort (dropna xs) = ys" unfolding ys_def by (rule refl)
  have "dropna xs \<noteq> []" using assms(1) by auto
  then have ne: "ys \<noteq> []" unfolding ys_def by (metis length_sort length_0_conv)
  have "set ys = {c}" unfolding ys_def using assms(1) by simp
  then have all: "ys ! i = c" if "i < length ys" for i using that by (metis nth_mem singletonD)
  have c1: "fl64 c = c" and c2: "\<bar>c\<bar> < 2 ^ 1024" using assms(2) unfolding is_binary64_def by blast+
  have hq: "fl64 (real (length ys - 1) * q) = h" unfolding h_def m_def by (rule refl)
  have z0: "0 \<le> real m * q" using assms(3) by simp
  have h0: "0 \<le> h" unfolding h_def using z0 by (rule fl64_nonneg)
  show ?thesis
  proof (cases "m = 0")
    case True
    have hz: "h = 0" unfolding h_def True by (simp add: fl64_zero)
    have "real (length ys - 1) \<le> h" unfolding hz using True unfolding m_def by simp
    then have "series_quantile xs q
         = np_lerp (ys ! (length ys - 1)) (ys ! (length ys - 1)) (fl64 (h + 1))"
      by (rule quantile_last[OF s ne hq])
    also have "ys ! (length ys - 1) = c" using ne by (intro all) simp
    also have "fl64 (h + 1) = 1" unfolding hz by (simp add: fl64_one)
    also have "np_lerp c c 1 = Fin c" using c1 c2 by (rule np_lerp_same) (simp add: pow2_pos less_imp_le)
    finally show ?thesis .
  next
    case False
    then have m1: "1 \<le> real m" by simp
    have "real m * q \<le> real m * (3 / 4)" using assms(4) by (intro mult_left_mono) simp_all
    then have hm: "h < real m" unfolding h_def by (rule fl64_three_quarters[OF m1 z0])
    then have hl: "h < real (length ys - 1)" unfolding m_def .
    define k where "k = nat \<lfloor>h\<rfloor>"
    have f0: "0 \<le> \<lfloor>h\<rfloor>" using h0 by simp
    have "\<lfloor>h\<rfloor> < int m" using hm by (simp add: floor_less_iff)
    then have km: "k < m" unfolding k_def using f0 by (simp add: nat_less_iff)
    then have k1: "k < length ys" and k2: "k + 1 < length ys" unfolding m_def by linarith+
    have "0 \<le> \<lfloor>h\<rfloor>" using h0 by simp
    then have rk: "real k = of_int \<lfloor>h\<rfloor>" unfolding k_def by simp
    have t0: "0 \<le> h - real k" and t1: "h - real k < 1" unfolding rk by linarith+
    have "series_quantile xs q = np_lerp (ys ! nat \<lfloor>h\<rfloor>) (ys ! (nat \<lfloor>h\<rfloor> + 1)) (h - real (nat \<lfloor>h\<rfloor>))"
      using hl by (rule quantile_at[OF s ne hq])
    then have "series_quantile xs q = np_lerp (ys ! k) (ys ! (k + 1)) (h - real k)"
      unfolding k_def .
    also have "ys ! k = c" using k1 by (rule all)
    also have "ys ! (k + 1) = c" using k2 by (rule all)
    also have "np_lerp c c (h - real k) = Fin c"
    proof (rule np_lerp_same[OF c1 c2])
      have "\<bar>1 - (h - real k)\<bar> \<le> 1" using t0 t1 by linarith
      then show "\<bar>1 - (h - real k)\<bar> \<le> pow2 1023" using one_le_pow2_1023 by linarith
    qed
    finally show ?thesis .
  qed
qed

text \<open>The quartile positions are exact for fewer than \<open>2 ^ 51\<close> values.\<close>

lemma quartile_position:
  assumes "m \<le> 2 ^ 51" and "j \<le> 3"
  shows "fl64 (real m * (real j / 4)) = real (m * j) / 4"
proof -
  have "m * j \<le> 2 ^ 51 * 3" using assms by (rule mult_le_mono)
  then have "int (m * j) \<le> int (2 ^ 51 * 3)" by (simp only: of_nat_le_iff)
  then have b: "\<bar>int (m * j)\<bar> \<le> 2 ^ 53" by simp
  have "fl64 (of_int (int (m * j)) * pow2 (- int 2)) = of_int (int (m * j)) * pow2 (- int 2)"
    using b by (rule fl64_exact) simp
  then have "fl64 (real (m * j) * (1 / 2 ^ 2)) = real (m * j) * (1 / 2 ^ 2)"
    unfolding pow2_neg_nat by simp
  then show ?thesis by (simp add: algebra_simps)
qed

lemma quartile_rank:
  "nat \<lfloor>real (m * j) / 4\<rfloor> = m * j div 4"
  "real (m * j) / 4 - real (m * j div 4) = real (m * j mod 4) / 4"
proof -
  have "\<lfloor>real (m * j) / real (4::nat)\<rfloor> = int (m * j div 4)" by (rule floor_divide_of_nat_eq)
  then show "nat \<lfloor>real (m * j) / 4\<rfloor> = m * j div 4" by simp
  have "m * j = 4 * (m * j div 4) + m * j mod 4" by simp
  then have a: "real (m * j) = real (4 * (m * j div 4) + m * j mod 4)" by (rule arg_cong)
  have b: "real (4 * (m * j div 4) + m * j mod 4) = 4 * real (m * j div 4) + real (m * j mod 4)"
    by (simp only: of_nat_add of_nat_mult of_nat_numeral)
  have "real (m * j) = 4 * real (m * j div 4) + real (m * j mod 4)" using a b by (rule trans)
  then show "real (m * j) / 4 - real (m * j div 4) = real (m * j mod 4) / 4" by linarith
qed

lemma quartile_between:
  assumes "sort (dropna xs) = ys" and "2 \<le> length ys" and "length ys - 1 \<le> 2 ^ 51"
      and "\<forall>v \<in> set ys. fl64 v = v \<and> \<bar>v\<bar> \<le> pow2 1022"
      and "1 \<le> j" and "j \<le> 3"
  shows "\<exists>r. series_quantile xs (real j / 4) = Fin r
           \<and> ys ! ((length ys - 1) * j div 4) \<le> r
           \<and> r \<le> ys ! ((length ys - 1) * j div 4 + 1)
           \<and> fl64 r = r
           \<and> (((length ys - 1) * j) mod 4 = 0 \<longrightarrow> r = ys ! ((length ys - 1) * j div 4))"
proof -
  define m where "m = length ys - 1"
  define k where "k = m * j div 4"
  define t where "t = real (m * j mod 4) / 4"
  have ne: "ys \<noteq> []" using assms(2) by auto
  have m1: "1 \<le> m" unfolding m_def using assms(2) by linarith
  have hq: "fl64 (real (length ys - 1) * (real j / 4)) = real (m * j) / 4"
    unfolding m_def[symmetric] using assms(3,6) unfolding m_def[symmetric] by (rule quartile_position)
  have "m * j \<le> m * 3" using assms(6) by (rule mult_le_mono2)
  then have mj: "m * j < 4 * m" using m1 by linarith
  then have "real (m * j) < real (4 * m)" by (simp only: of_nat_less_iff)
  then have hl: "real (m * j) / 4 < real (length ys - 1)" unfolding m_def[symmetric] by simp
  have km: "k < m" unfolding k_def using mj by (simp add: less_mult_imp_div_less mult.commute)
  then have k1: "k < length ys" and k2: "k + 1 < length ys" unfolding m_def by linarith+
  have "series_quantile xs (real j / 4)
        = np_lerp (ys ! nat \<lfloor>real (m * j) / 4\<rfloor>) (ys ! (nat \<lfloor>real (m * j) / 4\<rfloor> + 1))
            (real (m * j) / 4 - real (nat \<lfloor>real (m * j) / 4\<rfloor>))"
    using hl by (rule quantile_at[OF assms(1) ne hq])
  then have "series_quantile xs (real j / 4)
        = np_lerp (ys ! (m * j div 4)) (ys ! (m * j div 4 + 1))
            (real (m * j) / 4 - real (m * j div 4))"
    unfolding quartile_rank(1) .
  then have q: "series_quantile xs (real j / 4) = np_lerp (ys ! k) (ys ! (k + 1)) t"
    unfolding quartile_rank(2) k_def t_def .
  have srt: "sorted ys" unfolding assms(1)[symmetric] by (rule sorted_sort)
  have ab: "ys ! k \<le> ys ! (k + 1)" using srt k2 by (intro sorted_nth_mono) simp_all
  have a: "fl64 (ys ! k) = ys ! k" "\<bar>ys ! k\<bar> \<le> pow2 1022"
    using assms(4) k1 nth_mem by blast+
  have b: "fl64 (ys ! (k + 1)) = ys ! (k + 1)" "\<bar>ys ! (k + 1)\<bar> \<le> pow2 1022"
    using assms(4) k2 nth_mem by blast+
  have t0: "0 \<le> t" unfolding t_def by simp
  have "m * j mod 4 < 4" by simp
  then have "real (m * j mod 4) < real 4" by (simp only: of_nat_less_iff)
  then have t1: "t \<le> 1" unfolding t_def by simp
  obtain r where r: "np_lerp (ys ! k) (ys ! (k + 1)) t = Fin r" "ys ! k \<le> r" "r \<le> ys ! (k + 1)"
      "fl64 r = r"
    using np_lerp_between[OF a(1) b(1) ab a(2) b(2) t0 t1] by blast
  have z: "r = ys ! k" if "m * j mod 4 = 0"
  proof -
    have "t = 0" unfolding t_def that by simp
    then have "np_lerp (ys ! k) (ys ! (k + 1)) t = Fin (ys ! k)"
      using np_lerp_zero[OF a(1) a(2) b(2)] by simp
    then show ?thesis using r(1) by simp
  qed
  show ?thesis unfolding m_def[symmetric] k_def[symmetric] using q r z by auto
qed

lemma quartiles_ordered:
  assumes "sort (dropna xs) = ys" and "3 \<le> length ys" and "length ys - 1 \<le> 2 ^ 51"
      and "\<forall>v \<in> set ys. fl64 v = v \<and> \<bar>v\<bar> \<le> pow2 1022"
  shows "\<exists>q1 q2 q3. series_quantile xs (1 / 4) = Fin q1 \<and> series_quantile xs (1 / 2) = Fin q2
           \<and> series_quantile xs (3 / 4) = Fin q3
           \<and> ys ! 0 \<le> q1 \<and> q1 \<le> q2 \<and> q2 \<le> q3 \<and> q3 \<le> ys ! (length ys - 1)
           \<and> fl64 q1 = q1 \<and> fl64 q2 = q2 \<and> fl64 q3 = q3"
proof -
  define m where "m = length ys - 1"
  have m2: "2 \<le> m" unfolding m_def using assms(2) by linarith
  have n2: "2 \<le> length ys" using assms(2) by linarith
  have srt: "sorted ys" unfolding assms(1)[symmetric] by (rule sorted_sort)
  note qb = quartile_between[OF assms(1) n2 assms(3,4), unfolded m_def[symmetric]]
  obtain q1 where q1: "series_quantile xs (real 1 / 4) = Fin q1" "ys ! (m * 1 div 4) \<le> q1"
      "q1 \<le> ys ! (m * 1 div 4 + 1)" "fl64 q1 = q1"
    using qb[of 1] by auto
  obtain q2 where q2: "series_quantile xs (real 2 / 4) = Fin q2" "ys ! (m * 2 div 4) \<le> q2"
      "q2 \<le> ys ! (m * 2 div 4 + 1)" "fl64 q2 = q2"
      "m * 2 mod 4 = 0 \<longrightarrow> q2 = ys ! (m * 2 div 4)"
    using qb[of 2] by auto
  obtain q3 where q3: "series_quantile xs (real 3 / 4) = Fin q3" "ys ! (m * 3 div 4) \<le> q3"
      "q3 \<le> ys ! (m * 3 div 4 + 1)" "fl64 q3 = q3"
    using qb[of 3] by auto
  have e1: "series_quantile xs (1 / 4) = Fin q1" using q1(1) by simp
  have e2: "series_quantile xs (1 / 2) = Fin q2" using q2(1) by simp
  have e3: "series_quantile xs (3 / 4) = Fin q3" using q3(1) by simp
  have len: "length ys = m + 1" unfolding m_def using assms(2) by linarith
  have k12: "m * 1 div 4 + 1 \<le> m * 2 div 4" using m2 by presburger
  have k2l: "m * 2 div 4 < length ys" unfolding len by linarith
  have k3l: "m * 3 div 4 + 1 \<le> length ys - 1" unfolding len using m2 by simp
  have "ys ! 0 \<le> ys ! (m * 1 div 4)" using srt by (intro sorted_nth_mono) (simp_all add: len)
  then have lo: "ys ! 0 \<le> q1" using q1(2) by linarith
  have "ys ! (m * 3 div 4 + 1) \<le> ys ! (length ys - 1)"
    using srt k3l by (intro sorted_nth_mono) (simp_all add: len)
  then have hi: "q3 \<le> ys ! (length ys - 1)" using q3(3) by linarith
  have "ys ! (m * 1 div 4 + 1) \<le> ys ! (m * 2 div 4)" using srt k12 k2l by (rule sorted_nth_mono)
  then have o12: "q1 \<le> q2" using q1(3) q2(2) by linarith
  have o23: "q2 \<le> q3"
  proof (cases "m = 2")
    case True
    have "q2 = ys ! (m * 2 div 4)" using q2(5) unfolding True by simp
    then show ?thesis using q3(2) unfolding True by simp
  next
    case False
    then have k23: "m * 2 div 4 + 1 \<le> m * 3 div 4" using m2 by presburger
    have "m * 3 div 4 < length ys" unfolding len by linarith
    then have "ys ! (m * 2 div 4 + 1) \<le> ys ! (m * 3 div 4)" using srt k23 by (intro sorted_nth_mono)
    then show ?thesis using q2(3) q3(2) by linarith
  qed
  show ?thesis using e1 e2 e3 lo o12 o23 hi q1(4) q2(4) q3(4) by blast
qed

section \<open>Unfolding \<open>study_column_continuous\<close> on a numeric column\<close>

lemma quartile_list:
  "map (\<lambda>i. series_quantile xs (real i / 4)) [1..<4]
   = [series_quantile xs (1 / 4), series_quantile xs (1 / 2), series_quantile xs (3 / 4)]"
proof -
  have "[1..<4] = [1, 2, 3::nat]" by code_simp
  then show ?thesis by simp
qed

lemma study_numeric:
  assumes "getitem df col = Inr (NumCol xs)"
  shows "study_column_continuous skew_lib shapiro_lib df col ps pl sk g =
     (let q1 = series_quantile xs (1 / 4); q2 = series_quantile xs (1 / 2);
          q3 = series_quantile xs (3 / 4);
          iqr_v = f64_sub q3 q1;
          lower = f64_sub q1 (f64_mul (Fin 1.5) iqr_v);
          upper = f64_add q3 (f64_mul (Fin 1.5) iqr_v);
          s = (if sk then Some (skew_lib xs) else None)
      in (case (if g then map_sum id Some (shapiro_lib xs) else Inr None) of
            Inl e \<Rightarrow> Inl e
          | Inr sh \<Rightarrow>
              let outl = df_select df (outlier_mask xs lower upper)
              in (case py_truediv (int (len_df outl) * 100) (int (len_df df)) of
                    Inl e \<Rightarrow> Inl e
                  | Inr pct \<Rightarrow>
                      Inr \<lparr>quants = [q1, q2, q3], iqr = iqr_v, lowerBound = lower, upperBound = upper,
                           skew_printed = s,
                           skew_message = (case s of None \<Rightarrow> None | Some s \<Rightarrow> skew_text s),
                           shapiro_printed = sh,
                           gaussian_message = map_option (\<lambda>(stat, p). gaussian_text p) sh,
                           outliers = outl,
                           outliers_percent = py_round pct 2\<rparr>)))"
  unfolding study_column_continuous_def quartile_list using assms
  by (simp add: Let_def split: sum.split)

lemma select_rows_all_false:
  "\<forall>k \<in> set keep. \<not> k \<Longrightarrow> select_rows keep xs = []"
  unfolding select_rows_def
  by (auto simp: filter_empty_conv dest: set_zip_leftD)

lemma select_rows_map:
  "select_rows (map P xs) ys = map snd (filter (\<lambda>(v, l). P v) (zip xs ys))"
proof (induction xs arbitrary: ys)
  case Nil
  show ?case by (simp add: select_rows_def)
next
  case (Cons x xs)
  show ?case
  proof (cases ys)
    case Nil
    then show ?thesis by (simp add: select_rows_def)
  next
    case (Cons y ys')
    have "select_rows (map P xs) ys' = map snd (filter (\<lambda>(v, l). P v) (zip xs ys'))"
      by (rule Cons.IH)
    then show ?thesis unfolding Cons by (simp add: select_rows_def)
  qed
qed

lemma select_rows_self: "select_rows (map P xs) xs = filter P xs"
  unfolding select_rows_map by (induction xs) simp_all

lemma getitem_df_select:
  "getitem (df_select df keep) col = map_sum id (column_select keep) (getitem df col)"
proof -
  have "map_of (map (\<lambda>(n, c). (n, column_select keep c)) cs) col
        = map_option (column_select keep) (map_of cs col)" for cs
    by (induction cs) auto
  then show ?thesis by (simp add: getitem_def df_select_def split: option.split)
qed

lemma flt_simps:
  "flt (Some x) (Some y) = (x < y)" "flt None b = False" "flt a None = False"
  by (auto simp: flt_def split: option.splits)

lemma fgt_simps:
  "fgt (Some x) (Some y) = (y < x)" "fgt None b = False" "fgt a None = False"
  by (auto simp: fgt_def flt_def split: option.splits)

lemma getitem_single: "getitem \<lparr>df_index = ix, df_columns = [(c, col)]\<rparr> c = Inr col"
  by (simp add: getitem_def)

lemma study_returns:
  assumes "getitem df col = Inr (NumCol xs)" and "0 < len_df df"
      and "g \<longrightarrow> (\<exists>r. shapiro_lib xs = Inr r)"
  shows "\<exists>out. study_column_continuous skew_lib shapiro_lib df col ps pl sk g = Inr out"
proof -
  have d: "int (len_df df) \<noteq> 0" using assms(2) by simp
  obtain sh where sh: "(if g then map_sum id Some (shapiro_lib xs) else Inr None) = Inr sh"
    using assms(3) by (cases g) auto
  show ?thesis
    unfolding study_numeric[OF assms(1)] Let_def sh py_truediv_def using d by simp
qed

lemma study_result:
  assumes "study_column_continuous skew_lib shapiro_lib df col ps pl sk g = Inr out"
      and "getitem df col = Inr (NumCol xs)"
  obtains sh pct where
    "(if g then map_sum id Some (shapiro_lib xs) else Inr None) = Inr sh"
    "py_truediv (int (len_df (outliers out)) * 100) (int (len_df df)) = Inr pct"
    "out = \<lparr>quants = [series_quantile xs (1 / 4), series_quantile xs (1 / 2),
                       series_quantile xs (3 / 4)],
            iqr = f64_sub (series_quantile xs (3 / 4)) (series_quantile xs (1 / 4)),
            lowerBound = f64_sub (series_quantile xs (1 / 4))
               (f64_mul (Fin 1.5) (f64_sub (series_quantile xs (3 / 4)) (series_quantile xs (1 / 4)))),
            upperBound = f64_add (series_quantile xs (3 / 4))
               (f64_mul (Fin 1.5) (f64_sub (series_quantile xs (3 / 4)) (series_quantile xs (1 / 4)))),
            skew_printed = (if sk then Some (skew_lib xs) else None),
            skew_message = (if sk then skew_text (skew_lib xs) else None),
            shapiro_printed = sh,
            gaussian_message = map_option (\<lambda>(stat, p). gaussian_text p) sh,
            outliers = df_select df (outlier_mask xs
               (f64_sub (series_quantile xs (1 / 4))
                 (f64_mul (Fin 1.5) (f64_sub (series_quantile xs (3 / 4)) (series_quantile xs (1 / 4)))))
               (f64_add (series_quantile xs (3 / 4))
                 (f64_mul (Fin 1.5) (f64_sub (series_quantile xs (3 / 4)) (series_quantile xs (1 / 4)))))),
            outliers_percent = py_round pct 2\<rparr>"
proof -
  let ?S = "if g then map_sum id Some (shapiro_lib xs) else Inr None"
  note a = assms(1)[unfolded study_numeric[OF assms(2)] Let_def]
  obtain sh where sh: "?S = Inr sh"
    using a by (cases ?S) simp_all
  note b = a[unfolded sh sum.case]
  let ?O = "df_select df (outlier_mask xs
               (f64_sub (series_quantile xs (1 / 4))
                 (f64_mul (Fin 1.5) (f64_sub (series_quantile xs (3 / 4)) (series_quantile xs (1 / 4)))))
               (f64_add (series_quantile xs (3 / 4))
                 (f64_mul (Fin 1.5) (f64_sub (series_quantile xs (3 / 4)) (series_quantile xs (1 / 4))))))"
  obtain pct where pct: "py_truediv (int (len_df ?O) * 100) (int (len_df df)) = Inr pct"
    using b by (cases "py_truediv (int (len_df ?O) * 100) (int (len_df df))") simp_all
  note c = b[unfolded pct sum.case]
  have o: "outliers out = ?O" using c by auto
  show thesis
  proof (rule that[OF sh, of pct])
    show "py_truediv (int (len_df (outliers out)) * 100) (int (len_df df)) = Inr pct"
      unfolding o by (rule pct)
    show "out = \<lparr>quants = [series_quantile xs (1 / 4), series_quantile xs (1 / 2),
                       series_quantile xs (3 / 4)],
            iqr = f64_sub (series_quantile xs (3 / 4)) (series_quantile xs (1 / 4)),
            lowerBound = f64_sub (series_quantile xs (1 / 4))
               (f64_mul (Fin 1.5) (f64_sub (series_quantile xs (3 / 4)) (series_quantile xs (1 / 4)))),
            upperBound = f64_add (series_quantile xs (3 / 4))
               (f64_mul (Fin 1.5) (f64_sub (series_quantile xs (3 / 4)) (series_quantile xs (1 / 4)))),
            skew_printed = (if sk then Some (skew_lib xs) else None),
            skew_message = (if sk then skew_text (skew_lib xs) else None),
            shapiro_printed = sh,
            gaussian_message = map_option (\<lambda>(stat, p). gaussian_text p) sh,
            outliers = ?O,
            outliers_percent = py_round pct 2\<rparr>"
      using c by (cases sk) auto
  qed
qed

text \<open>The quantities of the study that the limits are made of.\<close>

lemma study_limits:
  assumes "study_column_continuous skew_lib shapiro_lib df col ps pl sk g = Inr out"
      and "getitem df col = Inr (NumCol xs)"
  shows "quants out = [series_quantile xs (1 / 4), series_quantile xs (1 / 2),
                       series_quantile xs (3 / 4)]"
    and "iqr out = f64_sub (series_quantile xs (3 / 4)) (series_quantile xs (1 / 4))"
    and "lowerBound out = f64_sub (series_quantile xs (1 / 4)) (f64_mul (Fin 1.5) (iqr out))"
    and "upperBound out = f64_add (series_quantile xs (3 / 4)) (f64_mul (Fin 1.5) (iqr out))"
    and "outliers out
           = df_select df (map (\<lambda>v. f64_lt (cell_float v) (lowerBound out)
                                    \<or> f64_gt (cell_float v) (upperBound out)) xs)"
proof -
  have gen: "quants out = [series_quantile xs (1 / 4), series_quantile xs (1 / 2),
                       series_quantile xs (3 / 4)]
       \<and> iqr out = f64_sub (series_quantile xs (3 / 4)) (series_quantile xs (1 / 4))
       \<and> lowerBound out = f64_sub (series_quantile xs (1 / 4)) (f64_mul (Fin 1.5) (iqr out))
       \<and> upperBound out = f64_add (series_quantile xs (3 / 4)) (f64_mul (Fin 1.5) (iqr out))
       \<and> outliers out
           = df_select df (map (\<lambda>v. f64_lt (cell_float v) (lowerBound out)
                                    \<or> f64_gt (cell_float v) (upperBound out)) xs)"
    using assms(1) unfolding study_numeric[OF assms(2)]
    by (auto simp: Let_def outlier_mask_def split: sum.splits)
  show "quants out = [series_quantile xs (1 / 4), series_quantile xs (1 / 2),
                       series_quantile xs (3 / 4)]"
    and "iqr out = f64_sub (series_quantile xs (3 / 4)) (series_quantile xs (1 / 4))"
    and "lowerBound out = f64_sub (series_quantile xs (1 / 4)) (f64_mul (Fin 1.5) (iqr out))"
    and "upperBound out = f64_add (series_quantile xs (3 / 4)) (f64_mul (Fin 1.5) (iqr out))"
    and "outliers out
           = df_select df (map (\<lambda>v. f64_lt (cell_float v) (lowerBound out)
                                    \<or> f64_gt (cell_float v) (upperBound out)) xs)"
    using gen by blast+
qed

lemma binary64_small:
  "is_binary64 0" "is_binary64 1" "is_binary64 2" "is_binary64 3" "is_binary64 4"
  "is_binary64 5" "is_binary64 30" "is_binary64 100"
proof -
  have f: "fl64 0 = 0" "fl64 1 = 1" "fl64 2 = 2" "fl64 3 = 3" "fl64 4 = 4" "fl64 5 = 5"
    "fl64 30 = 30" "fl64 100 = 100"
    by code_simp+
  show "is_binary64 0" "is_binary64 1" "is_binary64 2" "is_binary64 3" "is_binary64 4"
    "is_binary64 5" "is_binary64 30" "is_binary64 100"
    unfolding is_binary64_def f by simp_all
qed


section \<open>Outlier limits (C1)\<close>

text \<open>
  Claim C1. Whenever \<open>study_column_continuous\<close> returns on a numeric column, the three
  quantiles are those at 1/4, 1/2 and 3/4, the IQR is the third minus the first, the
  lower limit is the first quantile minus 1.5 times the IQR and the upper limit the third
  plus 1.5 times the IQR, each a binary64 operation. The returned frame holds exactly the
  rows whose value is strictly below the lower limit or strictly above the upper limit:
  its labels are the labels of those rows and its column holds their values, in order.
  The low and high outlier counts of \<open>count_outliers_per_column\<close> count the rows whose
  value is strictly below the same lower limit and strictly above the same upper limit.
  For a column with a single repeated binary64 value \<open>c\<close> the three quantiles are \<open>c\<close>,
  the IQR is 0, both limits are \<open>c\<close> and no row is returned. The witness is the column
  \<open>[5, 5, 5, 5]\<close>, and the column \<open>[5, 5, 5, 5, 30]\<close> with the same limits, of which the
  row that holds 30 is returned.
\<close>

theorem outlier_bounds:
  assumes "study_column_continuous skew_lib shapiro_lib df col ps pl sk g = Inr out"
      and "getitem df col = Inr (NumCol xs)"
  shows "quants out = [series_quantile xs (1 / 4), series_quantile xs (1 / 2),
                       series_quantile xs (3 / 4)]
       \<and> iqr out = f64_sub (quants out ! 2) (quants out ! 0)
       \<and> lowerBound out = f64_sub (quants out ! 0) (f64_mul (Fin 1.5) (iqr out))
       \<and> upperBound out = f64_add (quants out ! 2) (f64_mul (Fin 1.5) (iqr out))
       \<and> outliers out
           = df_select df (map (\<lambda>v. f64_lt (cell_float v) (lowerBound out)
                                    \<or> f64_gt (cell_float v) (upperBound out)) xs)
       \<and> df_index (outliers out)
           = map snd (filter (\<lambda>(v, l). f64_lt (cell_float v) (lowerBound out)
                                       \<or> f64_gt (cell_float v) (upperBound out))
                        (zip xs (df_index df)))
       \<and> getitem (outliers out) col
           = Inr (NumCol (filter (\<lambda>v. f64_lt (cell_float v) (lowerBound out)
                                      \<or> f64_gt (cell_float v) (upperBound out)) xs))
       \<and> num_low_outliers df xs
           = length (filter (\<lambda>(v, l). f64_lt (cell_float v) (lowerBound out))
                       (zip xs (df_index df)))
       \<and> num_high_outliers df xs
           = length (filter (\<lambda>(v, l). f64_gt (cell_float v) (upperBound out))
                       (zip xs (df_index df)))
       \<and> (\<forall>c. set (dropna xs) = {c} \<and> is_binary64 c \<longrightarrow>
             quants out = [Fin c, Fin c, Fin c] \<and> iqr out = Fin 0
             \<and> lowerBound out = Fin c \<and> upperBound out = Fin c
             \<and> df_index (outliers out) = [] \<and> getitem (outliers out) col = Inr (NumCol []))"
proof -
  note L = study_limits[OF assms]
  have q0: "quants out ! 0 = series_quantile xs (1 / 4)"
    and q2: "quants out ! 2 = series_quantile xs (3 / 4)"
    unfolding L(1) by simp_all
  have gi: "iqr out = f64_sub (quants out ! 2) (quants out ! 0)" unfolding q0 q2 by (rule L(2))
  have gl: "lowerBound out = f64_sub (quants out ! 0) (f64_mul (Fin 1.5) (iqr out))"
    unfolding q0 by (rule L(3))
  have gu: "upperBound out = f64_add (quants out ! 2) (f64_mul (Fin 1.5) (iqr out))"
    unfolding q2 by (rule L(4))
  have ix: "df_index (outliers out)
           = map snd (filter (\<lambda>(v, l). f64_lt (cell_float v) (lowerBound out)
                                       \<or> f64_gt (cell_float v) (upperBound out))
                        (zip xs (df_index df)))"
    by (subst L(5)) (simp add: df_select_def select_rows_map)
  have cl: "getitem (outliers out) col
           = Inr (NumCol (filter (\<lambda>v. f64_lt (cell_float v) (lowerBound out)
                                      \<or> f64_gt (cell_float v) (upperBound out)) xs))"
    by (subst L(5)) (simp add: getitem_df_select assms(2) select_rows_self)
  have e: "(0.25::real) = 1 / 4" "(0.75::real) = 3 / 4" by simp_all
  have lb: "f64_sub (series_quantile xs (1 / 4))
              (f64_mul (Fin 1.5) (f64_sub (series_quantile xs (3 / 4)) (series_quantile xs (1 / 4))))
            = lowerBound out"
    using L(3) unfolding L(2) by (rule sym)
  have ub: "f64_add (series_quantile xs (3 / 4))
              (f64_mul (Fin 1.5) (f64_sub (series_quantile xs (3 / 4)) (series_quantile xs (1 / 4))))
            = upperBound out"
    using L(4) unfolding L(2) by (rule sym)
  have lo: "num_low_outliers df xs
           = length (filter (\<lambda>(v, l). f64_lt (cell_float v) (lowerBound out))
                       (zip xs (df_index df)))"
    unfolding num_low_outliers_def e lb by (simp add: len_df_def df_select_def select_rows_map)
  have hi: "num_high_outliers df xs
           = length (filter (\<lambda>(v, l). f64_gt (cell_float v) (upperBound out))
                       (zip xs (df_index df)))"
    unfolding num_high_outliers_def e ub by (simp add: len_df_def df_select_def select_rows_map)
  have const: "quants out = [Fin c, Fin c, Fin c] \<and> iqr out = Fin 0
             \<and> lowerBound out = Fin c \<and> upperBound out = Fin c
             \<and> df_index (outliers out) = [] \<and> getitem (outliers out) col = Inr (NumCol [])"
    if h: "set (dropna xs) = {c} \<and> is_binary64 c" for c
  proof -
    have c: "set (dropna xs) = {c}" and b: "is_binary64 c" using h by blast+
    have q: "series_quantile xs (1 / 4) = Fin c" "series_quantile xs (1 / 2) = Fin c"
      "series_quantile xs (3 / 4) = Fin c"
      by (rule quantile_constant[OF c b]; simp)+
    have tc: "to_float64 c = Fin c"
      using b unfolding is_binary64_def by (intro to_float64_exact) blast+
    have qs: "quants out = [Fin c, Fin c, Fin c]" unfolding L(1) q by (rule refl)
    have i: "iqr out = Fin 0" unfolding L(2) q f64_sub_Fin by (simp add: to_float64_zero)
    have m: "f64_mul (Fin 1.5) (Fin 0) = Fin 0" by (simp add: to_float64_zero)
    have l: "lowerBound out = Fin c" unfolding L(3) q i m f64_sub_Fin using tc by simp
    have u: "upperBound out = Fin c" unfolding L(4) q i m using tc by simp
    have "\<not> (f64_lt (cell_float v) (Fin c) \<or> f64_gt (cell_float v) (Fin c))"
      if "v \<in> set xs" for v
    proof (cases v)
      case None
      then show ?thesis by (simp add: cell_float_def f64_gt_def)
    next
      case (Some a)
      then have "a \<in> set (dropna xs)" using that by (simp add: mem_dropna)
      then have "a = c" using c by simp
      then show ?thesis using Some by (simp add: cell_float_def f64_gt_def)
    qed
    then have f: "filter (\<lambda>v. f64_lt (cell_float v) (lowerBound out)
                            \<or> f64_gt (cell_float v) (upperBound out)) xs = []"
      unfolding l u by (simp add: filter_empty_conv)
    have "\<not> (case p of (v, l) \<Rightarrow> f64_lt (cell_float v) (lowerBound out)
                                   \<or> f64_gt (cell_float v) (upperBound out))"
      if "p \<in> set (zip xs (df_index df))" for p
    proof -
      have "fst p \<in> set xs" using that by (metis prod.collapse set_zip_leftD)
      then have "\<not> (f64_lt (cell_float (fst p)) (lowerBound out)
                     \<or> f64_gt (cell_float (fst p)) (upperBound out))"
        using f by (simp add: filter_empty_conv)
      then show ?thesis by (simp add: case_prod_unfold)
    qed
    then have "filter (\<lambda>(v, l). f64_lt (cell_float v) (lowerBound out)
                                \<or> f64_gt (cell_float v) (upperBound out))
                 (zip xs (df_index df)) = []"
      by (simp add: filter_empty_conv)
    then have x: "df_index (outliers out) = []" unfolding ix by simp
    have y: "getitem (outliers out) col = Inr (NumCol [])" unfolding cl f by (rule refl)
    show ?thesis using qs i l u x y by blast
  qed
  show ?thesis using L(1) gi gl gu L(5) ix cl lo hi const by blast
qed

theorem outlier_bounds_witness:
  "(\<exists>out. study_column_continuous (\<lambda>_. None) (\<lambda>_. Inl ValueError)
           \<lparr>df_index = [0, 1, 2, 3], df_columns = [(''x'', NumCol [Some 5, Some 5, Some 5, Some 5])]\<rparr>
           ''x'' False False False False = Inr out
       \<and> iqr out = Fin 0 \<and> lowerBound out = Fin 5 \<and> upperBound out = Fin 5
       \<and> df_index (outliers out) = [])
   \<and> (\<exists>out. study_column_continuous (\<lambda>_. None) (\<lambda>_. Inl ValueError)
           \<lparr>df_index = [10, 11, 12, 13, 14],
            df_columns = [(''x'', NumCol [Some 5, Some 5, Some 5, Some 5, Some 30])]\<rparr>
           ''x'' False False False False = Inr out
       \<and> iqr out = Fin 0 \<and> lowerBound out = Fin 5 \<and> upperBound out = Fin 5
       \<and> df_index (outliers out) = [14]
       \<and> getitem (outliers out) ''x'' = Inr (NumCol [Some 30]))"
proof -
  let ?xs = "[Some 5, Some 5, Some 5, Some (5::real)]"
  let ?df = "\<lparr>df_index = [0, 1, 2, 3], df_columns = [(''x'', NumCol ?xs)]\<rparr>"
  have g: "getitem ?df ''x'' = Inr (NumCol ?xs)" by (rule getitem_single)
  have n: "0 < len_df ?df" by (simp add: len_df_def)
  obtain out where r: "study_column_continuous (\<lambda>_. None) (\<lambda>_. Inl ValueError) ?df ''x''
      False False False False = Inr out"
    using study_returns[OF g n, of False] by blast
  have s: "set (dropna ?xs) = {5} \<and> is_binary64 5"
    by (simp add: dropna_def List.map_filter_def binary64_small)
  have "iqr out = Fin 0 \<and> lowerBound out = Fin 5 \<and> upperBound out = Fin 5
       \<and> df_index (outliers out) = []"
    using outlier_bounds[OF r g] s by blast
  with r have a: "\<exists>out. study_column_continuous (\<lambda>_. None) (\<lambda>_. Inl ValueError) ?df ''x''
      False False False False = Inr out
       \<and> iqr out = Fin 0 \<and> lowerBound out = Fin 5 \<and> upperBound out = Fin 5
       \<and> df_index (outliers out) = []" by blast
  let ?ys = "[Some 5, Some 5, Some 5, Some 5, Some (30::real)]"
  let ?dg = "\<lparr>df_index = [10, 11, 12, 13, 14], df_columns = [(''x'', NumCol ?ys)]\<rparr>"
  have g': "getitem ?dg ''x'' = Inr (NumCol ?ys)" by (rule getitem_single)
  have n': "0 < len_df ?dg" by (simp add: len_df_def)
  obtain o2 where r': "study_column_continuous (\<lambda>_. None) (\<lambda>_. Inl ValueError) ?dg ''x''
      False False False False = Inr o2"
    using study_returns[OF g' n', of False] by blast
  have fv: "fl64 0 = 0" "fl64 1 = 1" "fl64 3 = 3" "fl64 5 = 5" "fl64 25 = 25" by code_simp+
  have tv: "to_float64 0 = Fin 0" "to_float64 5 = Fin 5" "to_float64 25 = Fin 25"
    by (rule to_float64_exact, simp add: fv, simp)+
  have q: "series_quantile ?ys (1 / 4) = Fin 5" "series_quantile ?ys (3 / 4) = Fin 5"
    by (simp_all add: series_quantile_def dropna_def List.map_filter_def np_lerp_def f64_sub_Fin
          fv tv)
  note t = outlier_bounds[OF r' g']
  have qs: "quants o2 ! 0 = Fin 5" "quants o2 ! 2 = Fin 5" using t q by simp_all
  have gi: "iqr o2 = f64_sub (quants o2 ! 2) (quants o2 ! 0)" using t by blast
  have i: "iqr o2 = Fin 0" unfolding gi qs by (simp add: f64_sub_Fin tv)
  have gl: "lowerBound o2 = f64_sub (quants o2 ! 0) (f64_mul (Fin 1.5) (iqr o2))" using t by blast
  have l: "lowerBound o2 = Fin 5" unfolding gl qs i by (simp add: f64_sub_Fin tv)
  have gu: "upperBound o2 = f64_add (quants o2 ! 2) (f64_mul (Fin 1.5) (iqr o2))" using t by blast
  have u: "upperBound o2 = Fin 5" unfolding gu qs i by (simp add: tv)
  have gx: "df_index (outliers o2)
           = map snd (filter (\<lambda>(v, l). f64_lt (cell_float v) (lowerBound o2)
                                       \<or> f64_gt (cell_float v) (upperBound o2))
                        (zip ?ys (df_index ?dg)))"
    using t by blast
  have x: "df_index (outliers o2) = [14]"
    unfolding gx l u by (simp add: cell_float_def f64_gt_def)
  have gc: "getitem (outliers o2) ''x''
           = Inr (NumCol (filter (\<lambda>v. f64_lt (cell_float v) (lowerBound o2)
                                      \<or> f64_gt (cell_float v) (upperBound o2)) ?ys))"
    using t by blast
  have c: "getitem (outliers o2) ''x'' = Inr (NumCol [Some 30])"
    unfolding gc l u by (simp add: cell_float_def f64_gt_def)
  have b: "\<exists>out. study_column_continuous (\<lambda>_. None) (\<lambda>_. Inl ValueError) ?dg ''x''
      False False False False = Inr out
       \<and> iqr out = Fin 0 \<and> lowerBound out = Fin 5 \<and> upperBound out = Fin 5
       \<and> df_index (outliers out) = [14]
       \<and> getitem (outliers out) ''x'' = Inr (NumCol [Some 30])"
    using r' i l u x c by blast
  show ?thesis using a b by (rule conjI)
qed


section \<open>The column \<open>[1, 2, 3, 4, 5, 100]\<close>\<close>

lemma pow2_numerals:
  "pow2 1020 = 2 ^ 1020" "pow2 1021 = 2 ^ 1021" "pow2 1022 = 2 ^ 1022" "pow2 1023 = 2 ^ 1023"
  using pow2_nat[of 1020] pow2_nat[of 1021] pow2_nat[of 1022] pow2_nat[of 1023] by simp_all

lemma fl64_values:
  "fl64 1 = 1" "fl64 (1 / 4) = 1 / 4" "fl64 (1 / 2) = 1 / 2" "fl64 (3 / 4) = 3 / 4"
  "fl64 (5 / 4) = 5 / 4" "fl64 (5 / 2) = 5 / 2" "fl64 (15 / 4) = 15 / 4"
  "fl64 (9 / 4) = 9 / 4" "fl64 (7 / 2) = 7 / 2" "fl64 (19 / 4) = 19 / 4"
  "fl64 (- (3 / 2)) = - (3 / 2)" "fl64 (17 / 2) = 17 / 2"
  by code_simp+

lemma to_float64_values:
  "to_float64 1 = Fin 1" "to_float64 (1 / 4) = Fin (1 / 4)" "to_float64 (1 / 2) = Fin (1 / 2)"
  "to_float64 (9 / 4) = Fin (9 / 4)" "to_float64 (7 / 2) = Fin (7 / 2)"
  "to_float64 (19 / 4) = Fin (19 / 4)" "to_float64 (5 / 2) = Fin (5 / 2)"
  "to_float64 (15 / 4) = Fin (15 / 4)" "to_float64 (- (3 / 2)) = Fin (- (3 / 2))"
  "to_float64 (17 / 2) = Fin (17 / 2)"
  by (rule to_float64_exact, simp add: fl64_values, simp)+

lemma quantile_example:
  "series_quantile [Some 1, Some 2, Some 3, Some 4, Some 5, Some 100] (1 / 4) = Fin 2.25"
  "series_quantile [Some 1, Some 2, Some 3, Some 4, Some 5, Some 100] (1 / 2) = Fin 3.5"
  "series_quantile [Some 1, Some 2, Some 3, Some 4, Some 5, Some 100] (3 / 4) = Fin 4.75"
  by (simp_all add: series_quantile_def dropna_def List.map_filter_def np_lerp_def f64_sub_Fin
        fl64_values to_float64_values)

lemma limits_example:
  "f64_sub (Fin 4.75) (Fin 2.25) = Fin 2.5"
  "f64_sub (Fin 2.25) (f64_mul (Fin 1.5) (Fin 2.5)) = Fin (- 1.5)"
  "f64_add (Fin 4.75) (f64_mul (Fin 1.5) (Fin 2.5)) = Fin 8.5"
  by (simp_all add: f64_sub_Fin to_float64_values)

lemma percent_example: "py_round (fl64 (100 / 6)) 2 = fl64 (1667 / 100)"
  by code_simp

lemma study_example:
  "study_column_continuous skew_lib shapiro_lib
     \<lparr>df_index = [0, 1, 2, 3, 4, 5],
      df_columns = [(''x'', NumCol [Some 1, Some 2, Some 3, Some 4, Some 5, Some 100])]\<rparr>
     ''x'' ps pl sk g
   = (case (if g then map_sum id Some
                 (shapiro_lib [Some 1, Some 2, Some 3, Some 4, Some 5, Some 100])
            else Inr None) of
        Inl e \<Rightarrow> Inl e
      | Inr sh \<Rightarrow>
         Inr \<lparr>quants = [Fin 2.25, Fin 3.5, Fin 4.75], iqr = Fin 2.5,
          lowerBound = Fin (- 1.5), upperBound = Fin 8.5,
          skew_printed =
            (if sk then Some (skew_lib [Some 1, Some 2, Some 3, Some 4, Some 5, Some 100])
             else None),
          skew_message =
            (if sk then skew_text (skew_lib [Some 1, Some 2, Some 3, Some 4, Some 5, Some 100])
             else None),
          shapiro_printed = sh,
          gaussian_message = map_option (\<lambda>(stat, p). gaussian_text p) sh,
          outliers = \<lparr>df_index = [5], df_columns = [(''x'', NumCol [Some 100])]\<rparr>,
          outliers_percent = fl64 (1667 / 100)\<rparr>)"
proof -
  let ?xs = "[Some 1, Some 2, Some 3, Some 4, Some 5, Some (100::real)]"
  let ?df = "\<lparr>df_index = [0, 1, 2, 3, 4, 5], df_columns = [(''x'', NumCol ?xs)]\<rparr>"
  have g: "getitem ?df ''x'' = Inr (NumCol ?xs)" by (rule getitem_single)
  have m: "outlier_mask ?xs (Fin (- 1.5)) (Fin 8.5) = [False, False, False, False, False, True]"
    by (simp add: outlier_mask_def cell_float_def f64_gt_def)
  have s: "df_select ?df [False, False, False, False, False, True]
           = \<lparr>df_index = [5], df_columns = [(''x'', NumCol [Some 100])]\<rparr>"
    by (simp add: df_select_def select_rows_def)
  have n: "len_df \<lparr>df_index = [5], df_columns = [(''x'', NumCol [Some (100::real)])]\<rparr> = 1"
          "len_df ?df = 6"
    by (simp_all add: len_df_def)
  have p: "py_truediv (int 1 * 100) (int 6) = Inr (fl64 (100 / 6))"
    by (simp add: py_truediv_def)
  show ?thesis
    unfolding study_numeric[OF g] Let_def quantile_example limits_example m s n p sum.case
      percent_example
    by (cases sk) (simp_all split: sum.split)
qed

lemma count_example:
  "num_high_outliers \<lparr>df_index = [0, 1, 2, 3, 4, 5],
      df_columns = [(''x'', NumCol [Some 1, Some 2, Some 3, Some 4, Some 5, Some 100])]\<rparr>
      [Some 1, Some 2, Some 3, Some 4, Some 5, Some 100] = 1"
  "num_low_outliers \<lparr>df_index = [0, 1, 2, 3, 4, 5],
      df_columns = [(''x'', NumCol [Some 1, Some 2, Some 3, Some 4, Some 5, Some 100])]\<rparr>
      [Some 1, Some 2, Some 3, Some 4, Some 5, Some 100] = 0"
proof -
  have e: "(0.25::real) = 1 / 4" "(0.75::real) = 3 / 4" by simp_all
  show "num_high_outliers \<lparr>df_index = [0, 1, 2, 3, 4, 5],
      df_columns = [(''x'', NumCol [Some 1, Some 2, Some 3, Some 4, Some 5, Some 100])]\<rparr>
      [Some 1, Some 2, Some 3, Some 4, Some 5, Some 100] = 1"
    unfolding num_high_outliers_def e quantile_example limits_example
    by (simp add: cell_float_def f64_gt_def df_select_def select_rows_def len_df_def)
  show "num_low_outliers \<lparr>df_index = [0, 1, 2, 3, 4, 5],
      df_columns = [(''x'', NumCol [Some 1, Some 2, Some 3, Some 4, Some 5, Some 100])]\<rparr>
      [Some 1, Some 2, Some 3, Some 4, Some 5, Some 100] = 0"
    unfolding num_low_outliers_def e quantile_example limits_example
    by (simp add: cell_float_def df_select_def select_rows_def len_df_def)
qed

lemma quantile_formula:
  assumes "sort (dropna xs) = ys" and "ys \<noteq> []" and "fl64 (real (length ys - 1) * q) = h"
  shows "series_quantile xs q =
        (let n = length ys;
             k = (if h < real (n - 1) then nat \<lfloor>h\<rfloor> else n - 1);
             a = ys ! k;
             b = (if h < real (n - 1) then ys ! (k + 1) else ys ! k);
             t = (if h < real (n - 1) then h - real k else fl64 (h + 1))
         in if t < 1 / 2 then f64_add (Fin a) (f64_mul (f64_sub (Fin b) (Fin a)) (Fin t))
            else f64_sub (Fin b) (f64_mul (f64_sub (Fin b) (Fin a)) (f64_sub (Fin 1) (Fin t))))"
proof (cases "h < real (length ys - 1)")
  case True
  show ?thesis
    unfolding quantile_at[OF assms True] Let_def if_P[OF True] np_lerp_def by (rule refl)
next
  case False
  then have le: "real (length ys - 1) \<le> h" by linarith
  show ?thesis
    unfolding quantile_last[OF assms le] Let_def if_not_P[OF False] np_lerp_def by (rule refl)
qed

lemma quartile_closest_ranks:
  assumes "sort (dropna xs) = ys" and "2 \<le> length ys" and "length ys - 1 \<le> 2 ^ 51"
      and "\<forall>v \<in> set ys. is_binary64 v \<and> \<bar>v\<bar> \<le> 2 ^ 1022"
      and "1 \<le> j" and "j \<le> 3"
  shows "fl64 (real (length ys - 1) * (real j / 4)) = real ((length ys - 1) * j) / 4
       \<and> (\<exists>r. series_quantile xs (real j / 4) = Fin r \<and> is_binary64 r
              \<and> ys ! ((length ys - 1) * j div 4) \<le> r
              \<and> r \<le> ys ! ((length ys - 1) * j div 4 + 1))"
proof -
  have c: "\<forall>v \<in> set ys. fl64 v = v \<and> \<bar>v\<bar> \<le> pow2 1022"
    using assms(4) unfolding is_binary64_def pow2_numerals by blast
  obtain r where r: "series_quantile xs (real j / 4) = Fin r"
      "ys ! ((length ys - 1) * j div 4) \<le> r" "r \<le> ys ! ((length ys - 1) * j div 4 + 1)"
      "fl64 r = r"
    using quartile_between[OF assms(1-3) c assms(5,6)] by blast
  have k: "(length ys - 1) * j div 4 + 1 < length ys"
  proof -
    have "(length ys - 1) * j \<le> (length ys - 1) * 3" using assms(6) by (rule mult_le_mono2)
    then have "(length ys - 1) * j div 4 \<le> (length ys - 1) * 3 div 4" by (rule div_le_mono)
    moreover have "(length ys - 1) * 3 div 4 + 1 < length ys" using assms(2) by presburger
    ultimately show ?thesis by linarith
  qed
  then have k0: "(length ys - 1) * j div 4 < length ys" by linarith
  have lo: "\<bar>ys ! ((length ys - 1) * j div 4)\<bar> \<le> 2 ^ 1022" using assms(4) k0 nth_mem by blast
  have hi: "\<bar>ys ! ((length ys - 1) * j div 4 + 1)\<bar> \<le> 2 ^ 1022" using assms(4) k nth_mem by blast
  have "\<bar>r\<bar> \<le> 2 ^ 1022" using r(2,3) lo hi by linarith
  also have "(2::real) ^ 1022 < 2 ^ 1024" by simp
  finally have b: "is_binary64 r" unfolding is_binary64_def using r(4) by blast
  have p: "fl64 (real (length ys - 1) * (real j / 4)) = real ((length ys - 1) * j) / 4"
    using assms(3,6) by (rule quartile_position)
  show ?thesis using p r(1-3) b by blast
qed

section \<open>Quartiles by linear interpolation (C2)\<close>

text \<open>
  Claim C2. The quantile at \<open>q\<close> of a column whose sorted non-missing values are \<open>ys\<close>
  lies at the position \<open>h = (n - 1) * q\<close>, a binary64 product, and is interpolated
  linearly between the values \<open>a\<close> and \<open>b\<close> at the ranks \<open>floor h\<close> and \<open>floor h + 1\<close> with
  the weight \<open>t = h - floor h\<close>: it is \<open>a + (b - a) * t\<close> for \<open>t < 1/2\<close> and
  \<open>b - (b - a) * (1 - t)\<close> otherwise, in binary64 arithmetic (from the last rank on, both
  values are the last one). The study takes it at 1/4, 1/2 and 3/4. For these three, and
  fewer than \<open>2 ^ 51\<close> values, the position \<open>(n - 1) * j / 4\<close> is exact, and on binary64
  cells of magnitude at most \<open>2 ^ 1022\<close> the quartile is a binary64 number between the two
  closest ranks. On the column \<open>[1, 2, 3, 4, 5, 100]\<close> the study prints the quartiles 2.25,
  3.5 and 4.75, the IQR 2.5 and the limits -1.5 and 8.5, and returns exactly the row
  labelled 5 that holds 100; that column has one high outlier and no low outlier.
\<close>

theorem quartile_interpolation:
  "(sort (dropna xs) = ys \<and> ys \<noteq> [] \<and> fl64 (real (length ys - 1) * q) = h \<longrightarrow>
      series_quantile xs q =
        (let n = length ys;
             k = (if h < real (n - 1) then nat \<lfloor>h\<rfloor> else n - 1);
             a = ys ! k;
             b = (if h < real (n - 1) then ys ! (k + 1) else ys ! k);
             t = (if h < real (n - 1) then h - real k else fl64 (h + 1))
         in if t < 1 / 2 then f64_add (Fin a) (f64_mul (f64_sub (Fin b) (Fin a)) (Fin t))
            else f64_sub (Fin b) (f64_mul (f64_sub (Fin b) (Fin a)) (f64_sub (Fin 1) (Fin t)))))
   \<and> (sort (dropna xs) = ys \<and> 2 \<le> length ys \<and> length ys - 1 \<le> 2 ^ 51
        \<and> (\<forall>v \<in> set ys. is_binary64 v \<and> \<bar>v\<bar> \<le> 2 ^ 1022) \<and> 1 \<le> j \<and> j \<le> 3 \<longrightarrow>
          fl64 (real (length ys - 1) * (real j / 4)) = real ((length ys - 1) * j) / 4
        \<and> (\<exists>r. series_quantile xs (real j / 4) = Fin r \<and> is_binary64 r
              \<and> ys ! ((length ys - 1) * j div 4) \<le> r
              \<and> r \<le> ys ! ((length ys - 1) * j div 4 + 1)))
   \<and> study_column_continuous skew_lib shapiro_lib
       \<lparr>df_index = [0, 1, 2, 3, 4, 5],
        df_columns = [(''x'', NumCol [Some 1, Some 2, Some 3, Some 4, Some 5, Some 100])]\<rparr>
       ''x'' ps pl sk g
     = (case (if g then map_sum id Some
                   (shapiro_lib [Some 1, Some 2, Some 3, Some 4, Some 5, Some 100])
              else Inr None) of
          Inl e \<Rightarrow> Inl e
        | Inr sh \<Rightarrow>
           Inr \<lparr>quants = [Fin 2.25, Fin 3.5, Fin 4.75], iqr = Fin 2.5,
            lowerBound = Fin (- 1.5), upperBound = Fin 8.5,
            skew_printed =
              (if sk then Some (skew_lib [Some 1, Some 2, Some 3, Some 4, Some 5, Some 100])
               else None),
            skew_message =
              (if sk then skew_text (skew_lib [Some 1, Some 2, Some 3, Some 4, Some 5, Some 100])
               else None),
            shapiro_printed = sh,
            gaussian_message = map_option (\<lambda>(stat, p). gaussian_text p) sh,
            outliers = \<lparr>df_index = [5], df_columns = [(''x'', NumCol [Some 100])]\<rparr>,
            outliers_percent = fl64 (1667 / 100)\<rparr>)
   \<and> num_high_outliers \<lparr>df_index = [0, 1, 2, 3, 4, 5],
        df_columns = [(''x'', NumCol [Some 1, Some 2, Some 3, Some 4, Some 5, Some 100])]\<rparr>
        [Some 1, Some 2, Some 3, Some 4, Some 5, Some 100] = 1
   \<and> num_low_outliers \<lparr>df_index = [0, 1, 2, 3, 4, 5],
        df_columns = [(''x'', NumCol [Some 1, Some 2, Some 3, Some 4, Some 5, Some 100])]\<rparr>
        [Some 1, Some 2, Some 3, Some 4, Some 5, Some 100] = 0"
  using quantile_formula[of xs ys q h] quartile_closest_ranks[of xs ys j]
    study_example[of skew_lib shapiro_lib ps pl sk g] count_example
  by blast

theorem quartile_interpolation_witness:
  "series_quantile [Some 1, Some 2, Some 3, Some 4, Some 5, Some 100] (1 / 4) = Fin 2.25
   \<and> series_quantile [Some 1, Some 2, Some 3, Some 4, Some 5, Some 100] (3 / 4) = Fin 4.75
   \<and> (\<exists>r. series_quantile [Some 1, Some 2, Some 3, Some 4, Some 5, Some 100] (1 / 2) = Fin r
         \<and> 3 \<le> r \<and> r \<le> 4)"
proof -
  let ?xs = "[Some 1, Some 2, Some 3, Some 4, Some 5, Some (100::real)]"
  let ?ys = "[1, 2, 3, 4, 5, 100::real]"
  have s: "sort (dropna ?xs) = ?ys" by (simp add: dropna_def List.map_filter_def)
  have h1: "fl64 (real (length ?ys - 1) * (1 / 4)) = 5 / 4" by (simp add: fl64_values)
  have h3: "fl64 (real (length ?ys - 1) * (3 / 4)) = 15 / 4" by (simp add: fl64_values)
  have a: "series_quantile ?xs (1 / 4) = Fin 2.25"
    using quartile_interpolation[of ?xs ?ys "1 / 4" "5 / 4"] s h1
    by (simp add: Let_def f64_sub_Fin to_float64_values)
  have b: "series_quantile ?xs (3 / 4) = Fin 4.75"
    using quartile_interpolation[of ?xs ?ys "3 / 4" "15 / 4"] s h3
    by (simp add: Let_def f64_sub_Fin to_float64_values)
  have v: "\<forall>v \<in> set ?ys. is_binary64 v \<and> \<bar>v\<bar> \<le> 2 ^ 1022" by (simp add: binary64_small)
  have p: "sort (dropna ?xs) = ?ys \<and> 2 \<le> length ?ys \<and> length ?ys - 1 \<le> 2 ^ 51
        \<and> (\<forall>v \<in> set ?ys. is_binary64 v \<and> \<bar>v\<bar> \<le> 2 ^ 1022) \<and> 1 \<le> (2::nat) \<and> (2::nat) \<le> 3"
    using s v by simp
  have "\<exists>r. series_quantile ?xs (real 2 / 4) = Fin r \<and> is_binary64 r
              \<and> ?ys ! ((length ?ys - 1) * 2 div 4) \<le> r
              \<and> r \<le> ?ys ! ((length ?ys - 1) * 2 div 4 + 1)"
    using mp[OF quartile_interpolation[of ?xs ?ys "1 / 2" "5 / 2" 2, THEN conjunct2, THEN conjunct1] p]
    by (rule conjunct2)
  then have c: "\<exists>r. series_quantile ?xs (1 / 2) = Fin r \<and> 3 \<le> r \<and> r \<le> 4" by auto
  show ?thesis using a b c by blast
qed


section \<open>Order of the quartiles and the limits (C7)\<close>

lemma pow2_double: "pow2 (k + 1) = 2 * pow2 k"
proof -
  have "pow2 (k + int 1) = pow2 k * pow2 (int 1)" by (rule pow2_add)
  then show ?thesis unfolding pow2_nat by simp
qed

lemma pow2_1021:
  "pow2 1022 = 2 * pow2 1021" "pow2 1023 = 4 * pow2 1021"
proof -
  show a: "pow2 1022 = 2 * pow2 1021" using pow2_double[of 1021] by simp
  have "pow2 1023 = 2 * pow2 1022" using pow2_double[of 1022] by simp
  then show "pow2 1023 = 4 * pow2 1021" unfolding a by simp
qed

lemma study_ordered:
  assumes "study_column_continuous skew_lib shapiro_lib df col ps pl sk g = Inr out"
      and "getitem df col = Inr (NumCol xs)"
      and "\<forall>v \<in> set (dropna xs). is_binary64 v \<and> \<bar>v\<bar> \<le> 2 ^ 1021"
      and "3 \<le> length (dropna xs)" and "length (dropna xs) \<le> 2 ^ 51"
  shows "\<exists>q1 q2 q3 i lo hi.
           quants out = [Fin q1, Fin q2, Fin q3] \<and> q1 \<le> q2 \<and> q2 \<le> q3
         \<and> iqr out = Fin i \<and> i = fl64 (q3 - q1) \<and> 0 \<le> i
         \<and> lowerBound out = Fin lo \<and> lo = fl64 (q1 - fl64 (1.5 * i))
         \<and> upperBound out = Fin hi \<and> hi = fl64 (q3 + fl64 (1.5 * i))
         \<and> lo \<le> q1 \<and> q3 \<le> hi"
proof -
  define ys where "ys = sort (dropna xs)"
  define B where "B = pow2 1021"
  have s: "sort (dropna xs) = ys" unfolding ys_def by (rule refl)
  have len: "length ys = length (dropna xs)" unfolding ys_def by simp
  have set: "set ys = set (dropna xs)" unfolding ys_def by simp
  have B0: "0 < B" unfolding B_def by (rule pow2_pos)
  have p22: "pow2 1022 = 2 * B" and p23: "pow2 1023 = 4 * B" unfolding B_def by (rule pow2_1021)+
  have cb: "fl64 v = v \<and> \<bar>v\<bar> \<le> B" if "v \<in> set ys" for v
    using assms(3) that unfolding set is_binary64_def B_def pow2_numerals by blast
  have c22: "\<forall>v \<in> set ys. fl64 v = v \<and> \<bar>v\<bar> \<le> pow2 1022"
  proof
    fix v assume "v \<in> set ys"
    then have "fl64 v = v \<and> \<bar>v\<bar> \<le> B" by (rule cb)
    then show "fl64 v = v \<and> \<bar>v\<bar> \<le> pow2 1022" unfolding p22 using B0 by linarith
  qed
  have n3: "3 \<le> length ys" unfolding len by (rule assms(4))
  have n51: "length ys - 1 \<le> 2 ^ 51" unfolding len using assms(5) by linarith
  obtain q1 q2 q3 where e1: "series_quantile xs (1 / 4) = Fin q1"
    and e2: "series_quantile xs (1 / 2) = Fin q2"
    and e3: "series_quantile xs (3 / 4) = Fin q3"
    and o: "ys ! 0 \<le> q1" "q1 \<le> q2" "q2 \<le> q3" "q3 \<le> ys ! (length ys - 1)"
    and f: "fl64 q1 = q1" "fl64 q3 = q3"
    using quartiles_ordered[OF s n3 n51 c22] by blast
  have "ys ! 0 \<in> set ys" "ys ! (length ys - 1) \<in> set ys"
    using n3 by (intro nth_mem; linarith)+
  then have "\<bar>ys ! 0\<bar> \<le> B" "\<bar>ys ! (length ys - 1)\<bar> \<le> B" using cb by blast+
  then have b1: "\<bar>q1\<bar> \<le> B" and b3: "\<bar>q3\<bar> \<le> B" using o by linarith+
  define i where "i = fl64 (q3 - q1)"
  define w where "w = fl64 (1.5 * i)"
  define lo where "lo = fl64 (q1 - w)"
  define hi where "hi = fl64 (q3 + w)"
  note L = study_limits[OF assms(1,2)]
  have x0: "0 \<le> q3 - q1" using o(2,3) by linarith
  have x2: "\<bar>q3 - q1\<bar> \<le> pow2 1022" unfolding p22 using b1 b3 by linarith
  have "\<bar>q3 - q1\<bar> \<le> pow2 1023" unfolding p23 using b1 b3 B0 by linarith
  then have I: "iqr out = Fin i" unfolding L(2) e1 e3 f64_sub_Fin i_def by (rule to_float64_Fin)
  have i0: "0 \<le> i" unfolding i_def using x0 by (rule fl64_nonneg)
  have "\<bar>i\<bar> \<le> pow2 1022" unfolding i_def using x2 by (rule fl64_abs_le) simp
  then have i2: "i \<le> 2 * B" unfolding p22 by linarith
  have y0: "0 \<le> 1.5 * i" using i0 by simp
  have y3: "1.5 * i \<le> of_int 3 * pow2 1021" unfolding B_def[symmetric] using i2 by simp
  have "\<bar>1.5 * i\<bar> \<le> pow2 1023" unfolding p23 using y0 y3 B0 unfolding B_def[symmetric] by simp
  then have "to_float64 (1.5 * i) = Fin w" unfolding w_def by (rule to_float64_Fin)
  then have W: "f64_mul (Fin 1.5) (Fin i) = Fin w" by (simp only: f64_mul.simps(1))
  have w0: "0 \<le> w" unfolding w_def using y0 by (rule fl64_nonneg)
  have "w \<le> fl64 (of_int 3 * pow2 1021)" unfolding w_def using y3 by (rule fl64_mono)
  also have "fl64 (of_int 3 * pow2 1021) = of_int 3 * pow2 1021" by (rule fl64_exact) simp_all
  finally have w3: "w \<le> 3 * B" unfolding B_def by simp
  have "\<bar>q1 - w\<bar> \<le> pow2 1023" unfolding p23 using b1 w0 w3 by linarith
  then have "to_float64 (q1 - w) = Fin lo" unfolding lo_def by (rule to_float64_Fin)
  then have Lo: "lowerBound out = Fin lo" unfolding L(3) e1 I W f64_sub_Fin .
  have "\<bar>q3 + w\<bar> \<le> pow2 1023" unfolding p23 using b3 w0 w3 by linarith
  then have "to_float64 (q3 + w) = Fin hi" unfolding hi_def by (rule to_float64_Fin)
  then have Hi: "upperBound out = Fin hi" unfolding L(4) e3 I W by (simp only: f64_add.simps(1))
  have "lo \<le> fl64 q1" unfolding lo_def using w0 by (intro fl64_mono) linarith
  then have l1: "lo \<le> q1" unfolding f .
  have "fl64 q3 \<le> hi" unfolding hi_def using w0 by (intro fl64_mono) linarith
  then have h3: "q3 \<le> hi" unfolding f .
  have Q: "quants out = [Fin q1, Fin q2, Fin q3]" unfolding L(1) e1 e2 e3 by (rule refl)
  have lw: "lo = fl64 (q1 - fl64 (1.5 * i))" unfolding lo_def w_def by (rule refl)
  have hw: "hi = fl64 (q3 + fl64 (1.5 * i))" unfolding hi_def w_def by (rule refl)
  have ii: "i = fl64 (q3 - q1)" by (rule i_def)
  show ?thesis using Q o(2,3) I ii i0 Lo lw Hi hw l1 h3 by blast
qed

lemma overflow_quartiles:
  assumes "U = pow2 1020"
  shows "series_quantile [Some (- (12 * U)), Some (- (8 * U)), Some (8 * U), Some (12 * U)] (1 / 4)
           = Fin (- (9 * U))"
    and "series_quantile [Some (- (12 * U)), Some (- (8 * U)), Some (8 * U), Some (12 * U)] (1 / 2)
           = NInf"
    and "series_quantile [Some (- (12 * U)), Some (- (8 * U)), Some (8 * U), Some (12 * U)] (3 / 4)
           = Fin (9 * U)"
    and "f64_sub (Fin (9 * U)) (Fin (- (9 * U))) = PInf"
    and "is_binary64 (8 * U)" and "is_binary64 (12 * U)"
proof -
  have U0: "0 < U" unfolding assms by (rule pow2_pos)
  have big: "(2::real) ^ 1024 = 16 * U" unfolding assms pow2_numerals by simp
  have ex: "fl64 (of_int M * U) = of_int M * U" if "\<bar>M\<bar> \<le> 2 ^ 53" for M
    unfolding assms using that by (rule fl64_exact) simp
  have f: "fl64 U = U" "fl64 (4 * U) = 4 * U" "fl64 (8 * U) = 8 * U" "fl64 (9 * U) = 9 * U"
    "fl64 (12 * U) = 12 * U" "fl64 (16 * U) = 16 * U" "fl64 (18 * U) = 18 * U"
    "fl64 (- (9 * U)) = - (9 * U)"
    using ex[of 1] ex[of 4] ex[of 8] ex[of 9] ex[of 12] ex[of 16] ex[of 18] ex[of "- 9"]
    by simp_all
  have small: "\<bar>x\<bar> < 2 ^ 1024" if "\<bar>x\<bar> < 16 * U" for x using that unfolding big .
  have tf: "to_float64 x = Fin x" if "fl64 x = x" "\<bar>x\<bar> < 16 * U" for x
    using that(1) small[OF that(2)] by (rule to_float64_exact)
  have t: "to_float64 U = Fin U" "to_float64 (4 * U) = Fin (4 * U)"
    "to_float64 (9 * U) = Fin (9 * U)" "to_float64 (- (9 * U)) = Fin (- (9 * U))"
    by (rule tf, rule f, use U0 in linarith)+
  have p: "to_float64 (16 * U) = PInf" "to_float64 (18 * U) = PInf"
    unfolding to_float64_def Let_def f big using U0 by simp_all
  have v: "fl64 (1 / 4) = 1 / 4" "fl64 (1 / 2) = 1 / 2" "fl64 (3 / 4) = 3 / 4"
    "fl64 (3 / 2) = 3 / 2" "fl64 (9 / 4) = 9 / 4"
    by code_simp+
  have tv: "to_float64 (1 / 4) = Fin (1 / 4)" "to_float64 (1 / 2) = Fin (1 / 2)"
    by (rule to_float64_exact, simp add: v, simp)+
  have s: "sort (dropna [Some (- (12 * U)), Some (- (8 * U)), Some (8 * U), Some (12 * U)])
           = [- (12 * U), - (8 * U), 8 * U, 12 * U]"
    using U0 by (simp add: dropna_def List.map_filter_def)
  show "series_quantile [Some (- (12 * U)), Some (- (8 * U)), Some (8 * U), Some (12 * U)] (1 / 4)
           = Fin (- (9 * U))"
    unfolding series_quantile_def s Let_def
    by (simp add: np_lerp_def f64_sub_Fin v tv t)
  show "series_quantile [Some (- (12 * U)), Some (- (8 * U)), Some (8 * U), Some (12 * U)] (1 / 2)
           = NInf"
    unfolding series_quantile_def s Let_def
    by (simp add: np_lerp_def f64_sub_Fin v tv t p f64_sub_def)
  show "series_quantile [Some (- (12 * U)), Some (- (8 * U)), Some (8 * U), Some (12 * U)] (3 / 4)
           = Fin (9 * U)"
    unfolding series_quantile_def s Let_def
    by (simp add: np_lerp_def f64_sub_Fin v tv t)
  show "f64_sub (Fin (9 * U)) (Fin (- (9 * U))) = PInf"
    by (simp add: f64_sub_Fin p)
  show "is_binary64 (8 * U)" "is_binary64 (12 * U)"
    unfolding is_binary64_def f big using U0 by simp_all
qed

text \<open>
  Claim C7, amended. The claim fails where the interpolation overflows: on the column
  \<open>[-12, -8, 8, 12]\<close> times \<open>2 ^ 1020\<close>, four distinct binary64 numbers, the difference
  of the two middle values is \<open>2 ^ 1024\<close>, which is infinite in binary64, and the study
  prints the quartiles \<open>-9 * 2 ^ 1020\<close>, \<open>-inf\<close> and \<open>9 * 2 ^ 1020\<close>: the median is below the
  first quartile, and the IQR and the limits are infinite. For every numeric column with
  at least three and at most \<open>2 ^ 51\<close> non-missing values, all binary64 numbers of
  magnitude at most \<open>2 ^ 1021\<close>, the three quartiles, the IQR and both limits are finite
  numbers with \<open>q1 \<le> q2 \<le> q3\<close>, the IQR is the rounded \<open>q3 - q1\<close> and not negative, and
  the median lies between the lower and the upper limit, so the outlier test is false for
  the median.
\<close>

theorem quartile_order:
  assumes "study_column_continuous skew_lib shapiro_lib df col ps pl sk g = Inr out"
      and "getitem df col = Inr (NumCol xs)"
      and "\<forall>v \<in> set (dropna xs). is_binary64 v \<and> \<bar>v\<bar> \<le> 2 ^ 1021"
      and "3 \<le> length (dropna xs)" and "length (dropna xs) \<le> 2 ^ 51"
  shows "\<exists>q1 q2 q3 i lo hi.
           quants out = [Fin q1, Fin q2, Fin q3] \<and> q1 \<le> q2 \<and> q2 \<le> q3
         \<and> iqr out = Fin i \<and> i = fl64 (q3 - q1) \<and> 0 \<le> i
         \<and> lowerBound out = Fin lo \<and> lo = fl64 (q1 - fl64 (1.5 * i))
         \<and> upperBound out = Fin hi \<and> hi = fl64 (q3 + fl64 (1.5 * i))
         \<and> lo \<le> q2 \<and> q2 \<le> hi
         \<and> \<not> f64_lt (Fin q2) (lowerBound out) \<and> \<not> f64_gt (Fin q2) (upperBound out)"
proof -
  obtain q1 q2 q3 i lo hi where Q: "quants out = [Fin q1, Fin q2, Fin q3]"
    and o: "q1 \<le> q2" "q2 \<le> q3"
    and I: "iqr out = Fin i" "i = fl64 (q3 - q1)" "0 \<le> i"
    and Lo: "lowerBound out = Fin lo" "lo = fl64 (q1 - fl64 (1.5 * i))"
    and Hi: "upperBound out = Fin hi" "hi = fl64 (q3 + fl64 (1.5 * i))"
    and b: "lo \<le> q1" "q3 \<le> hi"
    using study_ordered[OF assms] by blast
  have l2: "lo \<le> q2" and h2: "q2 \<le> hi" using o b by linarith+
  have nl: "\<not> f64_lt (Fin q2) (lowerBound out)" unfolding Lo(1) using l2 by simp
  have nu: "\<not> f64_gt (Fin q2) (upperBound out)" unfolding Hi(1) f64_gt_def using h2 by simp
  show ?thesis using Q o I Lo Hi l2 h2 nl nu by blast
qed

theorem quartile_order_witness:
  "\<exists>out q1 q2 q3. study_column_continuous (\<lambda>_. None) (\<lambda>_. Inl ValueError)
           \<lparr>df_index = [0, 1, 2, 3],
            df_columns = [(''x'', NumCol [Some 3, None, Some 1, Some 2])]\<rparr>
           ''x'' False False False False = Inr out
       \<and> quants out = [Fin q1, Fin q2, Fin q3] \<and> q1 \<le> q2 \<and> q2 \<le> q3
       \<and> \<not> f64_lt (Fin q2) (lowerBound out) \<and> \<not> f64_gt (Fin q2) (upperBound out)"
proof -
  let ?xs = "[Some 3, None, Some 1, Some (2::real)]"
  let ?df = "\<lparr>df_index = [0, 1, 2, 3], df_columns = [(''x'', NumCol ?xs)]\<rparr>"
  have g: "getitem ?df ''x'' = Inr (NumCol ?xs)" by (rule getitem_single)
  have n: "0 < len_df ?df" by (simp add: len_df_def)
  have d: "dropna ?xs = [3, 1, 2]" by (simp add: dropna_def List.map_filter_def)
  have c: "\<forall>v \<in> set (dropna ?xs). is_binary64 v \<and> \<bar>v\<bar> \<le> 2 ^ 1021"
    unfolding d by (simp add: binary64_small)
  have n3: "3 \<le> length (dropna ?xs)" and n51: "length (dropna ?xs) \<le> 2 ^ 51"
    unfolding d by simp_all
  obtain out where r: "study_column_continuous (\<lambda>_. None) (\<lambda>_. Inl ValueError) ?df ''x''
      False False False False = Inr out"
    using study_returns[OF g n, of False] by blast
  show ?thesis using quartile_order[OF r g c n3 n51] r by blast
qed

theorem quartile_overflow_counterexample:
  "\<exists>out. study_column_continuous (\<lambda>_. None) (\<lambda>_. Inl ValueError)
           \<lparr>df_index = [0, 1, 2, 3],
            df_columns = [(''x'', NumCol [Some (- (12 * 2 ^ 1020)), Some (- (8 * 2 ^ 1020)),
                                         Some (8 * 2 ^ 1020), Some (12 * 2 ^ 1020)])]\<rparr>
           ''x'' False False False False = Inr out
       \<and> quants out = [Fin (- (9 * 2 ^ 1020)), NInf, Fin (9 * 2 ^ 1020)]
       \<and> f64_lt (quants out ! 1) (quants out ! 0)
       \<and> iqr out = PInf \<and> lowerBound out = NInf \<and> upperBound out = PInf
       \<and> is_binary64 (8 * 2 ^ 1020) \<and> is_binary64 (12 * 2 ^ 1020)"
proof -
  define U :: real where "U = 2 ^ 1020"
  have U: "U = pow2 1020" unfolding U_def pow2_numerals by (rule refl)
  let ?xs = "[Some (- (12 * U)), Some (- (8 * U)), Some (8 * U), Some (12 * U)]"
  let ?df = "\<lparr>df_index = [0, 1, 2, 3], df_columns = [(''x'', NumCol ?xs)]\<rparr>"
  note q = overflow_quartiles[OF U]
  have g: "getitem ?df ''x'' = Inr (NumCol ?xs)" by (rule getitem_single)
  have n: "0 < len_df ?df" by (simp add: len_df_def)
  obtain out where r: "study_column_continuous (\<lambda>_. None) (\<lambda>_. Inl ValueError) ?df ''x''
      False False False False = Inr out"
    using study_returns[OF g n, of False] by blast
  note L = study_limits[OF r g]
  have Q: "quants out = [Fin (- (9 * U)), NInf, Fin (9 * U)]" unfolding L(1) q(1-3) by (rule refl)
  have lt: "f64_lt (quants out ! 1) (quants out ! 0)" unfolding Q by simp
  have I: "iqr out = PInf" unfolding L(2) q(1,3) by (rule q(4))
  have Lo: "lowerBound out = NInf" unfolding L(3) I q(1) by (simp add: f64_sub_def)
  have Hi: "upperBound out = PInf" unfolding L(4) I q(3) by simp
  have "\<exists>out. study_column_continuous (\<lambda>_. None) (\<lambda>_. Inl ValueError) ?df ''x''
      False False False False = Inr out
       \<and> quants out = [Fin (- (9 * U)), NInf, Fin (9 * U)]
       \<and> f64_lt (quants out ! 1) (quants out ! 0)
       \<and> iqr out = PInf \<and> lowerBound out = NInf \<and> upperBound out = PInf
       \<and> is_binary64 (8 * U) \<and> is_binary64 (12 * U)"
    using r Q lt I Lo Hi q(5,6) by blast
  then show ?thesis unfolding U_def .
qed


section \<open>Messages, printed values and errors of the study\<close>

lemma fle_simps:
  "fle (Some x) (Some y) = (x \<le> y)" "fle None b = False" "fle a None = False"
  by (auto simp: fle_def split: option.splits)

lemma fge_simps:
  "fge (Some x) (Some y) = (y \<le> x)" "fge None b = False" "fge a None = False"
  by (auto simp: fge_def fle_def split: option.splits)

lemma skew_text_nan: "skew_text None = None"
  by (simp add: skew_text_def flt_simps fgt_simps fge_simps fle_simps)

lemma skew_text_num:
  "skew_text (Some v) =
     (if 1 < \<bar>v\<bar> then Some ''The distribution is highly skewed''
      else if 0.5 < \<bar>v\<bar> then Some ''The distribution is moderately skewed''
      else None)"
proof -
  have a: "(v < - 1 \<or> 1 < v) = (1 < \<bar>v\<bar>)" by linarith
  have b: "((- 1 \<le> v \<and> v < - 0.5) \<or> (0.5 < v \<and> v \<le> 1)) = (0.5 < \<bar>v\<bar> \<and> \<not> 1 < \<bar>v\<bar>)"
    by argo
  show ?thesis
    unfolding skew_text_def flt_simps fgt_simps fge_simps fle_simps a b by simp
qed

lemma literal_0_05: "fl64 0.05 = 3602879701896397 / 2 ^ 56"
  by code_simp

lemma gaussian_text_looks:
  "gaussian_text p = ''Sample looks Gaussian (fail to reject H0)''
     \<longleftrightarrow> (\<exists>v. p = Some v \<and> fl64 0.05 < v)"
  by (cases p) (simp_all add: gaussian_text_def fgt_simps)

lemma gaussian_text_not:
  "gaussian_text p = ''Sample does not look Gaussian (reject H0)''
     \<longleftrightarrow> \<not> (\<exists>v. p = Some v \<and> fl64 0.05 < v)"
  by (cases p) (simp_all add: gaussian_text_def fgt_simps)

lemma gaussian_text_examples:
  "gaussian_text (Some (fl64 0.2)) = ''Sample looks Gaussian (fail to reject H0)''"
  "gaussian_text (Some (fl64 0.01)) = ''Sample does not look Gaussian (reject H0)''"
  "gaussian_text (Some (fl64 0.05)) = ''Sample does not look Gaussian (reject H0)''"
proof -
  have a: "fl64 0.05 < fl64 0.2" and b: "\<not> fl64 0.05 < fl64 0.01" by code_simp+
  show "gaussian_text (Some (fl64 0.2)) = ''Sample looks Gaussian (fail to reject H0)''"
    unfolding gaussian_text_def fgt_simps using a by simp
  show "gaussian_text (Some (fl64 0.01)) = ''Sample does not look Gaussian (reject H0)''"
    unfolding gaussian_text_def fgt_simps using b by simp
  show "gaussian_text (Some (fl64 0.05)) = ''Sample does not look Gaussian (reject H0)''"
    unfolding gaussian_text_def fgt_simps by simp
qed

lemma study_skew:
  assumes "study_column_continuous skew_lib shapiro_lib df col ps pl sk g = Inr out"
      and "getitem df col = Inr (NumCol xs)"
  shows "skew_printed out = (if sk then Some (skew_lib xs) else None)"
    and "skew_message out = (if sk then skew_text (skew_lib xs) else None)"
proof -
  obtain sh pct where o: "out = \<lparr>quants = [series_quantile xs (1 / 4), series_quantile xs (1 / 2),
                       series_quantile xs (3 / 4)],
            iqr = f64_sub (series_quantile xs (3 / 4)) (series_quantile xs (1 / 4)),
            lowerBound = f64_sub (series_quantile xs (1 / 4))
               (f64_mul (Fin 1.5) (f64_sub (series_quantile xs (3 / 4)) (series_quantile xs (1 / 4)))),
            upperBound = f64_add (series_quantile xs (3 / 4))
               (f64_mul (Fin 1.5) (f64_sub (series_quantile xs (3 / 4)) (series_quantile xs (1 / 4)))),
            skew_printed = (if sk then Some (skew_lib xs) else None),
            skew_message = (if sk then skew_text (skew_lib xs) else None),
            shapiro_printed = sh,
            gaussian_message = map_option (\<lambda>(stat, p). gaussian_text p) sh,
            outliers = df_select df (outlier_mask xs
               (f64_sub (series_quantile xs (1 / 4))
                 (f64_mul (Fin 1.5) (f64_sub (series_quantile xs (3 / 4)) (series_quantile xs (1 / 4)))))
               (f64_add (series_quantile xs (3 / 4))
                 (f64_mul (Fin 1.5) (f64_sub (series_quantile xs (3 / 4)) (series_quantile xs (1 / 4)))))),
            outliers_percent = py_round pct 2\<rparr>"
    using study_result[OF assms] by metis
  show "skew_printed out = (if sk then Some (skew_lib xs) else None)" unfolding o by simp
  show "skew_message out = (if sk then skew_text (skew_lib xs) else None)" unfolding o by simp
qed

lemma study_shapiro:
  assumes "study_column_continuous skew_lib shapiro_lib df col ps pl sk g = Inr out"
      and "getitem df col = Inr (NumCol xs)"
  shows "(if g then map_sum id Some (shapiro_lib xs) else Inr None) = Inr (shapiro_printed out)"
    and "gaussian_message out = map_option (\<lambda>(stat, p). gaussian_text p) (shapiro_printed out)"
proof -
  obtain sh pct where s: "(if g then map_sum id Some (shapiro_lib xs) else Inr None) = Inr sh"
    and o: "out = \<lparr>quants = [series_quantile xs (1 / 4), series_quantile xs (1 / 2),
                       series_quantile xs (3 / 4)],
            iqr = f64_sub (series_quantile xs (3 / 4)) (series_quantile xs (1 / 4)),
            lowerBound = f64_sub (series_quantile xs (1 / 4))
               (f64_mul (Fin 1.5) (f64_sub (series_quantile xs (3 / 4)) (series_quantile xs (1 / 4)))),
            upperBound = f64_add (series_quantile xs (3 / 4))
               (f64_mul (Fin 1.5) (f64_sub (series_quantile xs (3 / 4)) (series_quantile xs (1 / 4)))),
            skew_printed = (if sk then Some (skew_lib xs) else None),
            skew_message = (if sk then skew_text (skew_lib xs) else None),
            shapiro_printed = sh,
            gaussian_message = map_option (\<lambda>(stat, p). gaussian_text p) sh,
            outliers = df_select df (outlier_mask xs
               (f64_sub (series_quantile xs (1 / 4))
                 (f64_mul (Fin 1.5) (f64_sub (series_quantile xs (3 / 4)) (series_quantile xs (1 / 4)))))
               (f64_add (series_quantile xs (3 / 4))
                 (f64_mul (Fin 1.5) (f64_sub (series_quantile xs (3 / 4)) (series_quantile xs (1 / 4)))))),
            outliers_percent = py_round pct 2\<rparr>"
    using study_result[OF assms] by metis
  have p: "shapiro_printed out = sh" unfolding o by simp
  show "(if g then map_sum id Some (shapiro_lib xs) else Inr None) = Inr (shapiro_printed out)"
    unfolding p by (rule s)
  show "gaussian_message out = map_option (\<lambda>(stat, p). gaussian_text p) (shapiro_printed out)"
    unfolding o by simp
qed

lemma study_percent:
  assumes "study_column_continuous skew_lib shapiro_lib df col ps pl sk g = Inr out"
      and "getitem df col = Inr (NumCol xs)"
  shows "0 < len_df df"
    and "outliers_percent out
          = py_round (fl64 (real (len_df (outliers out)) * 100 / real (len_df df))) 2"
proof -
  obtain sh pct where d: "py_truediv (int (len_df (outliers out)) * 100) (int (len_df df)) = Inr pct"
    and o: "out = \<lparr>quants = [series_quantile xs (1 / 4), series_quantile xs (1 / 2),
                       series_quantile xs (3 / 4)],
            iqr = f64_sub (series_quantile xs (3 / 4)) (series_quantile xs (1 / 4)),
            lowerBound = f64_sub (series_quantile xs (1 / 4))
               (f64_mul (Fin 1.5) (f64_sub (series_quantile xs (3 / 4)) (series_quantile xs (1 / 4)))),
            upperBound = f64_add (series_quantile xs (3 / 4))
               (f64_mul (Fin 1.5) (f64_sub (series_quantile xs (3 / 4)) (series_quantile xs (1 / 4)))),
            skew_printed = (if sk then Some (skew_lib xs) else None),
            skew_message = (if sk then skew_text (skew_lib xs) else None),
            shapiro_printed = sh,
            gaussian_message = map_option (\<lambda>(stat, p). gaussian_text p) sh,
            outliers = df_select df (outlier_mask xs
               (f64_sub (series_quantile xs (1 / 4))
                 (f64_mul (Fin 1.5) (f64_sub (series_quantile xs (3 / 4)) (series_quantile xs (1 / 4)))))
               (f64_add (series_quantile xs (3 / 4))
                 (f64_mul (Fin 1.5) (f64_sub (series_quantile xs (3 / 4)) (series_quantile xs (1 / 4)))))),
            outliers_percent = py_round pct 2\<rparr>"
    using study_result[OF assms] by metis
  have n: "int (len_df df) \<noteq> 0" using d by (auto simp: py_truediv_def split: if_splits)
  then show "0 < len_df df" by simp
  have "pct = fl64 (of_int (int (len_df (outliers out)) * 100) / of_int (int (len_df df)))"
    using d n by (simp add: py_truediv_def)
  then have pct: "pct = fl64 (real (len_df (outliers out)) * 100 / real (len_df df))" by simp
  have "outliers_percent out = py_round pct 2" by (subst o) simp
  then show "outliers_percent out
          = py_round (fl64 (real (len_df (outliers out)) * 100 / real (len_df df))) 2"
    unfolding pct .
qed

lemma study_missing_column:
  "map_of (df_columns df) col = None \<Longrightarrow>
   study_column_continuous skew_lib shapiro_lib df col ps pl sk g = Inl KeyError"
  by (simp add: study_column_continuous_def getitem_def)

lemma py_round_zero: "py_round (fl64 0) 2 = 0"
  by (simp add: py_round_def fl64_def round_half_even_def)

lemma outlier_mask_nan: "outlier_mask xs FNaN FNaN = replicate (length xs) False"
  by (induction xs) (simp_all add: outlier_mask_def f64_nan)

lemma select_rows_replicate_False: "select_rows (replicate n False) xs = []"
  by (rule select_rows_all_false) simp

section \<open>Skew classification (C5)\<close>

text \<open>
  Claim C5, amended. With the \<open>skew\<close> flag set, the study prints the skew \<open>s\<close> of the column
  and the message "The distribution is highly skewed" exactly when \<open>|s| > 1\<close>, the message
  "The distribution is moderately skewed" exactly when \<open>0.5 < |s| \<le> 1\<close>, and no message
  at all otherwise, that is when \<open>|s| \<le> 0.5\<close> or the skew is NaN. The source has no third
  branch: a skew of 0 yields no classification, which is the counterexample to the claim
  that such a column is classified as approximately symmetric.
\<close>

theorem skew_classification:
  assumes "study_column_continuous skew_lib shapiro_lib df col ps pl True g = Inr out"
      and "getitem df col = Inr (NumCol xs)"
  shows "skew_printed out = Some (skew_lib xs)
       \<and> (skew_message out = Some ''The distribution is highly skewed''
            \<longleftrightarrow> (\<exists>s. skew_lib xs = Some s \<and> 1 < \<bar>s\<bar>))
       \<and> (skew_message out = Some ''The distribution is moderately skewed''
            \<longleftrightarrow> (\<exists>s. skew_lib xs = Some s \<and> 0.5 < \<bar>s\<bar> \<and> \<bar>s\<bar> \<le> 1))
       \<and> (skew_message out = None
            \<longleftrightarrow> (skew_lib xs = None \<or> (\<exists>s. skew_lib xs = Some s \<and> \<bar>s\<bar> \<le> 0.5)))"
proof -
  have p: "skew_printed out = Some (skew_lib xs)" using study_skew(1)[OF assms] by simp
  have m: "skew_message out = skew_text (skew_lib xs)" using study_skew(2)[OF assms] by simp
  show ?thesis
  proof (cases "skew_lib xs")
    case None
    then show ?thesis using p m by (simp add: skew_text_nan)
  next
    case (Some s)
    have t: "skew_message out = (if 1 < \<bar>s\<bar> then Some ''The distribution is highly skewed''
      else if 0.5 < \<bar>s\<bar> then Some ''The distribution is moderately skewed''
      else None)"
      unfolding m Some skew_text_num by (rule refl)
    have h: "(skew_message out = Some ''The distribution is highly skewed'') = (1 < \<bar>s\<bar>)"
      unfolding t by simp
    have mo: "(skew_message out = Some ''The distribution is moderately skewed'')
               = (0.5 < \<bar>s\<bar> \<and> \<bar>s\<bar> \<le> 1)"
      unfolding t by auto
    have no: "(skew_message out = None) = (\<bar>s\<bar> \<le> 0.5)"
      unfolding t by auto
    show ?thesis unfolding h mo no p Some by simp
  qed
qed

theorem skew_classification_witness:
  "\<exists>out. study_column_continuous (\<lambda>_. Some 2) (\<lambda>_. Inl ValueError)
           \<lparr>df_index = [0, 1, 2], df_columns = [(''x'', NumCol [Some 1, Some 1, Some 9])]\<rparr>
           ''x'' False False True False = Inr out
       \<and> skew_printed out = Some (Some 2)
       \<and> skew_message out = Some ''The distribution is highly skewed''"
proof -
  let ?xs = "[Some 1, Some 1, Some (9::real)]"
  let ?df = "\<lparr>df_index = [0, 1, 2], df_columns = [(''x'', NumCol ?xs)]\<rparr>"
  have g: "getitem ?df ''x'' = Inr (NumCol ?xs)" by (rule getitem_single)
  have n: "0 < len_df ?df" by (simp add: len_df_def)
  obtain out where r: "study_column_continuous (\<lambda>_. Some 2) (\<lambda>_. Inl ValueError) ?df ''x''
      False False True False = Inr out"
    using study_returns[OF g n, of False] by blast
  have "skew_printed out = Some (Some 2)
       \<and> skew_message out = Some ''The distribution is highly skewed''"
    using skew_classification[OF r g] by simp
  with r show ?thesis by blast
qed

theorem skew_symmetric_counterexample:
  "\<exists>out. study_column_continuous (\<lambda>_. Some 0) (\<lambda>_. Inl ValueError)
           \<lparr>df_index = [0, 1, 2], df_columns = [(''x'', NumCol [Some 1, Some 2, Some 3])]\<rparr>
           ''x'' False False True False = Inr out
       \<and> skew_printed out = Some (Some 0) \<and> skew_message out = None"
proof -
  let ?xs = "[Some 1, Some 2, Some (3::real)]"
  let ?df = "\<lparr>df_index = [0, 1, 2], df_columns = [(''x'', NumCol ?xs)]\<rparr>"
  have g: "getitem ?df ''x'' = Inr (NumCol ?xs)" by (rule getitem_single)
  have n: "0 < len_df ?df" by (simp add: len_df_def)
  obtain out where r: "study_column_continuous (\<lambda>_. Some 0) (\<lambda>_. Inl ValueError) ?df ''x''
      False False True False = Inr out"
    using study_returns[OF g n, of False] by blast
  have "skew_printed out = Some (Some 0)" using study_skew(1)[OF r g] by simp
  moreover have "skew_message out = None"
    using study_skew(2)[OF r g] by (simp add: skew_text_num)
  ultimately show ?thesis using r by blast
qed

section \<open>Normality verdict (C6)\<close>

text \<open>
  Claim C6. With the \<open>gaussian_test\<close> flag set, whenever the study returns, the Shapiro-Wilk
  call has returned a statistic and a p-value, and the verdict printed is "Sample looks
  Gaussian" exactly when \<open>p > 0.05\<close> holds and "Sample does not look Gaussian" exactly when
  it does not. The comparison is the source's: \<open>0.05\<close> is the binary64 literal
  \<open>fl64 0.05 = 3602879701896397 / 2 ^ 56\<close>, and a NaN p-value compares false. The p-value
  0.2 gives the first verdict and 0.01 the second; a p-value equal to the literal itself
  gives the second, the comparison being strict.
\<close>

theorem gaussian_threshold:
  assumes "study_column_continuous skew_lib shapiro_lib df col ps pl sk True = Inr out"
      and "getitem df col = Inr (NumCol xs)"
  shows "\<exists>stat p. shapiro_lib xs = Inr (stat, p) \<and> shapiro_printed out = Some (stat, p)
       \<and> (gaussian_message out = Some ''Sample looks Gaussian (fail to reject H0)''
            \<longleftrightarrow> (\<exists>v. p = Some v \<and> fl64 0.05 < v))
       \<and> (gaussian_message out = Some ''Sample does not look Gaussian (reject H0)''
            \<longleftrightarrow> \<not> (\<exists>v. p = Some v \<and> fl64 0.05 < v))
       \<and> fl64 0.05 = 3602879701896397 / 2 ^ 56
       \<and> gaussian_text (Some (fl64 0.2)) = ''Sample looks Gaussian (fail to reject H0)''
       \<and> gaussian_text (Some (fl64 0.01)) = ''Sample does not look Gaussian (reject H0)''
       \<and> gaussian_text (Some (fl64 0.05)) = ''Sample does not look Gaussian (reject H0)''"
proof -
  have s: "map_sum id Some (shapiro_lib xs) = Inr (shapiro_printed out)"
    using study_shapiro(1)[OF assms] by simp
  then obtain stat p where sp: "shapiro_lib xs = Inr (stat, p)"
    and pr: "shapiro_printed out = Some (stat, p)"
    by (cases "shapiro_lib xs") auto
  have m: "gaussian_message out = Some (gaussian_text p)"
    using study_shapiro(2)[OF assms] unfolding pr by simp
  have a: "(gaussian_message out = Some ''Sample looks Gaussian (fail to reject H0)'')
            = (\<exists>v. p = Some v \<and> fl64 0.05 < v)"
    unfolding m using gaussian_text_looks[of p] by simp
  have b: "(gaussian_message out = Some ''Sample does not look Gaussian (reject H0)'')
            = (\<not> (\<exists>v. p = Some v \<and> fl64 0.05 < v))"
    unfolding m using gaussian_text_not[of p] by simp
  show ?thesis using sp pr a b literal_0_05 gaussian_text_examples by blast
qed

theorem gaussian_threshold_witness:
  "(\<exists>out. study_column_continuous (\<lambda>_. None) (\<lambda>_. Inr (Some (fl64 0.9), Some (fl64 0.2)))
           \<lparr>df_index = [0, 1, 2], df_columns = [(''x'', NumCol [Some 1, Some 2, Some 3])]\<rparr>
           ''x'' False False False True = Inr out
       \<and> gaussian_message out = Some ''Sample looks Gaussian (fail to reject H0)'')
   \<and> (\<exists>out. study_column_continuous (\<lambda>_. None) (\<lambda>_. Inr (Some (fl64 0.5), Some (fl64 0.01)))
           \<lparr>df_index = [0, 1, 2], df_columns = [(''x'', NumCol [Some 1, Some 2, Some 3])]\<rparr>
           ''x'' False False False True = Inr out
       \<and> gaussian_message out = Some ''Sample does not look Gaussian (reject H0)'')"
proof -
  let ?xs = "[Some 1, Some 2, Some (3::real)]"
  let ?df = "\<lparr>df_index = [0, 1, 2], df_columns = [(''x'', NumCol ?xs)]\<rparr>"
  let ?s1 = "\<lambda>_ :: pyfloat list. Inr (Some (fl64 0.9), Some (fl64 0.2)) :: py_error + pyfloat \<times> pyfloat"
  let ?s2 = "\<lambda>_ :: pyfloat list. Inr (Some (fl64 0.5), Some (fl64 0.01)) :: py_error + pyfloat \<times> pyfloat"
  have g: "getitem ?df ''x'' = Inr (NumCol ?xs)" by (rule getitem_single)
  have n: "0 < len_df ?df" by (simp add: len_df_def)
  have lt: "fl64 0.05 < fl64 0.2" and nlt: "\<not> fl64 0.05 < fl64 0.01" by code_simp+
  obtain o1 where r1: "study_column_continuous (\<lambda>_. None) ?s1 ?df ''x''
      False False False True = Inr o1"
    using study_returns[OF g n, of True ?s1] by blast
  obtain o2 where r2: "study_column_continuous (\<lambda>_. None) ?s2 ?df ''x''
      False False False True = Inr o2"
    using study_returns[OF g n, of True ?s2] by blast
  have a: "gaussian_message o1 = Some ''Sample looks Gaussian (fail to reject H0)''"
  proof -
    obtain stat p where sp: "?s1 ?xs = Inr (stat, p)"
      and i: "(gaussian_message o1 = Some ''Sample looks Gaussian (fail to reject H0)'')
            = (\<exists>v. p = Some v \<and> fl64 0.05 < v)"
      using gaussian_threshold[OF r1 g] by blast
    have p: "p = Some (fl64 0.2)" using sp by simp
    with lt have "\<exists>v. p = Some v \<and> fl64 0.05 < v" by blast
    then show ?thesis unfolding i .
  qed
  have b: "gaussian_message o2 = Some ''Sample does not look Gaussian (reject H0)''"
  proof -
    obtain stat p where sp: "?s2 ?xs = Inr (stat, p)"
      and i: "(gaussian_message o2 = Some ''Sample does not look Gaussian (reject H0)'')
            = (\<not> (\<exists>v. p = Some v \<and> fl64 0.05 < v))"
      using gaussian_threshold[OF r2 g] by blast
    have p: "p = Some (fl64 0.01)" using sp by simp
    with nlt have "\<not> (\<exists>v. p = Some v \<and> fl64 0.05 < v)" by auto
    then show ?thesis unfolding i .
  qed
  show ?thesis using r1 r2 a b by blast
qed

section \<open>Errors of the study (C3)\<close>

text \<open>
  Claim C3, amended. The study raises \<open>KeyError\<close> when the column is not in the table. It
  raises nothing for a column without a non-missing value: on a numeric column of a table
  with at least one row it returns whenever the normality test is switched off or returns
  itself, and if the column holds no value the quantiles, the IQR and both limits are NaN,
  no row is an outlier and the percentage is 0. The counterexample is a two-row column whose
  values are both missing, on which the study returns.
\<close>

theorem study_errors:
  "(map_of (df_columns df) col = None \<longrightarrow>
      study_column_continuous skew_lib shapiro_lib df col ps pl sk g = Inl KeyError)
   \<and> (getitem df col = Inr (NumCol xs) \<and> 0 < len_df df \<and> (g \<longrightarrow> (\<exists>r. shapiro_lib xs = Inr r)) \<longrightarrow>
        (\<exists>out. study_column_continuous skew_lib shapiro_lib df col ps pl sk g = Inr out
            \<and> (dropna xs = [] \<longrightarrow>
                  quants out = [FNaN, FNaN, FNaN] \<and> iqr out = FNaN
                  \<and> lowerBound out = FNaN \<and> upperBound out = FNaN
                  \<and> df_index (outliers out) = [] \<and> outliers_percent out = 0)))"
proof (intro conjI impI)
  assume "map_of (df_columns df) col = None"
  then show "study_column_continuous skew_lib shapiro_lib df col ps pl sk g = Inl KeyError"
    by (rule study_missing_column)
next
  assume a: "getitem df col = Inr (NumCol xs) \<and> 0 < len_df df \<and> (g \<longrightarrow> (\<exists>r. shapiro_lib xs = Inr r))"
  then have g: "getitem df col = Inr (NumCol xs)" and n: "0 < len_df df"
    and s: "g \<longrightarrow> (\<exists>r. shapiro_lib xs = Inr r)" by blast+
  obtain out where r: "study_column_continuous skew_lib shapiro_lib df col ps pl sk g = Inr out"
    using study_returns[OF g n, of g shapiro_lib] s by blast
  have e: "quants out = [FNaN, FNaN, FNaN] \<and> iqr out = FNaN
                  \<and> lowerBound out = FNaN \<and> upperBound out = FNaN
                  \<and> df_index (outliers out) = [] \<and> outliers_percent out = 0"
    if d: "dropna xs = []"
  proof -
    have q: "series_quantile xs q = FNaN" for q using d by (rule quantile_nan)
    obtain sh pct where o: "out = \<lparr>quants = [FNaN, FNaN, FNaN],
            iqr = f64_sub FNaN FNaN,
            lowerBound = f64_sub FNaN (f64_mul (Fin 1.5) (f64_sub FNaN FNaN)),
            upperBound = f64_add FNaN (f64_mul (Fin 1.5) (f64_sub FNaN FNaN)),
            skew_printed = (if sk then Some (skew_lib xs) else None),
            skew_message = (if sk then skew_text (skew_lib xs) else None),
            shapiro_printed = sh,
            gaussian_message = map_option (\<lambda>(stat, p). gaussian_text p) sh,
            outliers = df_select df (outlier_mask xs
               (f64_sub FNaN (f64_mul (Fin 1.5) (f64_sub FNaN FNaN)))
               (f64_add FNaN (f64_mul (Fin 1.5) (f64_sub FNaN FNaN)))),
            outliers_percent = py_round pct 2\<rparr>"
      using study_result[OF r g] unfolding q by metis
    note f = f64_nan
    have qs: "quants out = [FNaN, FNaN, FNaN]" by (subst o) simp
    have i: "iqr out = FNaN" by (subst o) (simp add: f)
    have l: "lowerBound out = FNaN" by (subst o) (simp add: f)
    have u: "upperBound out = FNaN" by (subst o) (simp add: f)
    have "outliers out = df_select df (replicate (length xs) False)"
      by (subst o) (simp add: f outlier_mask_nan)
    then have x: "df_index (outliers out) = []"
      by (simp add: df_select_def select_rows_replicate_False)
    then have "len_df (outliers out) = 0" by (simp add: len_df_def)
    then have "outliers_percent out = py_round (fl64 0) 2"
      using study_percent(2)[OF r g] by simp
    then have p: "outliers_percent out = 0" unfolding py_round_zero .
    show ?thesis using qs i l u x p by blast
  qed
  show "\<exists>out. study_column_continuous skew_lib shapiro_lib df col ps pl sk g = Inr out
            \<and> (dropna xs = [] \<longrightarrow>
                  quants out = [FNaN, FNaN, FNaN] \<and> iqr out = FNaN
                  \<and> lowerBound out = FNaN \<and> upperBound out = FNaN
                  \<and> df_index (outliers out) = [] \<and> outliers_percent out = 0)"
    using r e by blast
qed

theorem study_errors_witness:
  "study_column_continuous (\<lambda>_. None) (\<lambda>_. Inl ValueError)
       \<lparr>df_index = [0, 1], df_columns = [(''x'', NumCol [None, None])]\<rparr>
       ''y'' False False False False = Inl KeyError
   \<and> (\<exists>out. study_column_continuous (\<lambda>_. None) (\<lambda>_. Inl ValueError)
           \<lparr>df_index = [0, 1], df_columns = [(''x'', NumCol [None, None])]\<rparr>
           ''x'' False False False False = Inr out
         \<and> quants out = [FNaN, FNaN, FNaN] \<and> df_index (outliers out) = []
         \<and> outliers_percent out = 0)"
proof -
  let ?xs = "[None, None] :: pyfloat list"
  let ?df = "\<lparr>df_index = [0, 1], df_columns = [(''x'', NumCol ?xs)]\<rparr>"
  have g: "getitem ?df ''x'' = Inr (NumCol ?xs)" by (rule getitem_single)
  have n: "0 < len_df ?df" by (simp add: len_df_def)
  have d: "dropna ?xs = []" by (simp add: dropna_def List.map_filter_def)
  have m: "map_of (df_columns ?df) ''y'' = None" by simp
  have a: "study_column_continuous (\<lambda>_. None) (\<lambda>_. Inl ValueError) ?df ''y''
             False False False False = Inl KeyError"
    using study_errors[of ?df "''y''" "\<lambda>_. None" "\<lambda>_. Inl ValueError" False False False False ?xs] m
    by blast
  have b: "\<exists>out. study_column_continuous (\<lambda>_. None) (\<lambda>_. Inl ValueError) ?df ''x''
           False False False False = Inr out
         \<and> quants out = [FNaN, FNaN, FNaN] \<and> df_index (outliers out) = []
         \<and> outliers_percent out = 0"
    using study_errors[of ?df "''x''" "\<lambda>_. None" "\<lambda>_. Inl ValueError" False False False False ?xs]
      g n d by blast
  show ?thesis using a b by (rule conjI)
qed

theorem empty_column_counterexample:
  "\<exists>out. study_column_continuous (\<lambda>_. None) (\<lambda>_. Inl ValueError)
           \<lparr>df_index = [0, 1], df_columns = [(''x'', NumCol [None, None])]\<rparr>
           ''x'' False False False False = Inr out"
proof -
  let ?xs = "[None, None] :: pyfloat list"
  let ?df = "\<lparr>df_index = [0, 1], df_columns = [(''x'', NumCol ?xs)]\<rparr>"
  have g: "getitem ?df ''x'' = Inr (NumCol ?xs)" by (rule getitem_single)
  have n: "0 < len_df ?df" by (simp add: len_df_def)
  show ?thesis using study_returns[OF g n, of False] by blast
qed


section \<open>The frame built by \<open>count_outliers_per_column\<close>\<close>

lemma outlier_record_Inr:
  assumes "outlier_record df col = Inr rec"
  obtains xs where "getitem df col = Inr (NumCol xs)" "0 < len_df df"
    "rec = [(''Column'', StrCell col),
            (''Number of High outliers'', IntCell (int (num_high_outliers df xs))),
            (''Number of Low outliers'', IntCell (int (num_low_outliers df xs))),
            (''High outliers %'',
               FloatCell (py_round (fl64 (real (num_high_outliers df xs) * 100 / real (len_df df))) 2)),
            (''Low outliers %'',
               FloatCell (py_round (fl64 (real (num_low_outliers df xs) * 100 / real (len_df df))) 2))]"
proof -
  obtain c where c: "getitem df col = Inr c"
    using assms by (cases "getitem df col") (simp_all add: outlier_record_def)
  obtain xs where xs: "c = NumCol xs"
    using assms c by (cases c) (simp_all add: outlier_record_def)
  have g: "getitem df col = Inr (NumCol xs)" using c xs by simp
  have n: "len_df df \<noteq> 0"
    using assms g by (auto simp: outlier_record_def py_truediv_def split: if_splits)
  have r: "rec = [(''Column'', StrCell col),
            (''Number of High outliers'', IntCell (int (num_high_outliers df xs))),
            (''Number of Low outliers'', IntCell (int (num_low_outliers df xs))),
            (''High outliers %'',
               FloatCell (py_round (fl64 (real (num_high_outliers df xs) * 100 / real (len_df df))) 2)),
            (''Low outliers %'',
               FloatCell (py_round (fl64 (real (num_low_outliers df xs) * 100 / real (len_df df))) 2))]"
    using assms g n by (simp add: outlier_record_def py_truediv_def)
  show thesis using that[OF g _ r] n by simp
qed

lemma outlier_record_returns:
  assumes "getitem df col = Inr (NumCol xs)" "0 < len_df df"
  shows "\<exists>rec. outlier_record df col = Inr rec"
  using assms by (simp add: outlier_record_def py_truediv_def)

lemma frame_append_first:
  assumes "map fst rec = [''Column'', ''Number of High outliers'', ''Number of Low outliers'',
                          ''High outliers %'', ''Low outliers %'']"
  shows "frame_append (new_frame [''Column'', ''Number of high outliers'', ''Number of low outliers'']) rec
       = \<lparr>fr_columns = [''Column'', ''Number of high outliers'', ''Number of low outliers'',
                       ''Number of High outliers'', ''Number of Low outliers'',
                       ''High outliers %'', ''Low outliers %''],
          fr_rows = [map (\<lambda>c. case map_of rec c of None \<Rightarrow> NaN | Some v \<Rightarrow> v)
                      [''Column'', ''Number of high outliers'', ''Number of low outliers'',
                       ''Number of High outliers'', ''Number of Low outliers'',
                       ''High outliers %'', ''Low outliers %'']]\<rparr>"
  unfolding frame_append_def new_frame_def assms Let_def by simp

lemma pad_rows:
  "\<forall>r \<in> set rows. length r = n \<Longrightarrow> map (\<lambda>r. r @ replicate (n - length r) NaN) rows = rows"
  by (induction rows) simp_all

lemma frame_append_next:
  assumes "map fst rec = [''Column'', ''Number of High outliers'', ''Number of Low outliers'',
                          ''High outliers %'', ''Low outliers %'']"
      and "fr_columns fr = [''Column'', ''Number of high outliers'', ''Number of low outliers'',
                       ''Number of High outliers'', ''Number of Low outliers'',
                       ''High outliers %'', ''Low outliers %'']"
      and "\<forall>r \<in> set (fr_rows fr). length r = length (fr_columns fr)"
  shows "frame_append fr rec
       = \<lparr>fr_columns = fr_columns fr,
          fr_rows = fr_rows fr @ [map (\<lambda>c. case map_of rec c of None \<Rightarrow> NaN | Some v \<Rightarrow> v)
                      (fr_columns fr)]\<rparr>"
proof -
  have k: "filter (\<lambda>k. k \<notin> set (fr_columns fr)) (remdups (map fst rec)) = []"
    unfolding assms(1,2) by simp
  show ?thesis
    unfolding frame_append_def Let_def k append_Nil2 pad_rows[OF assms(3)] by (rule refl)
qed

lemma outlier_record_keys:
  assumes "outlier_record df col = Inr rec"
  shows "map fst rec = [''Column'', ''Number of High outliers'', ''Number of Low outliers'',
                        ''High outliers %'', ''Low outliers %'']"
  using assms by (rule outlier_record_Inr) simp

lemma count_loop_rows:
  assumes "fr_columns fr0 = [''Column'', ''Number of high outliers'', ''Number of low outliers'',
                           ''Number of High outliers'', ''Number of Low outliers'',
                           ''High outliers %'', ''Low outliers %'']"
      and "\<forall>r \<in> set (fr_rows fr0). length r = length (fr_columns fr0)"
      and "count_loop df cols fr0 = Inr fr"
  shows "fr_columns fr = [''Column'', ''Number of high outliers'', ''Number of low outliers'',
                           ''Number of High outliers'', ''Number of Low outliers'',
                           ''High outliers %'', ''Low outliers %'']
       \<and> fr_rows fr = fr_rows fr0 @
            map (\<lambda>c. case outlier_record df c of Inl _ \<Rightarrow> []
                      | Inr rec \<Rightarrow> map (\<lambda>k. case map_of rec k of None \<Rightarrow> NaN | Some v \<Rightarrow> v)
                          [''Column'', ''Number of high outliers'', ''Number of low outliers'',
                           ''Number of High outliers'', ''Number of Low outliers'',
                           ''High outliers %'', ''Low outliers %'']) cols
       \<and> (\<forall>c \<in> set cols. \<exists>rec. outlier_record df c = Inr rec)"
  using assms
proof (induction cols arbitrary: fr0)
  case Nil
  then show ?case by simp
next
  case (Cons c cs)
  let ?seven = "[''Column'', ''Number of high outliers'', ''Number of low outliers'',
                           ''Number of High outliers'', ''Number of Low outliers'',
                           ''High outliers %'', ''Low outliers %'']"
  obtain rec where rec: "outlier_record df c = Inr rec"
    using Cons.prems(3) by (cases "outlier_record df c") simp_all
  let ?row = "map (\<lambda>k. case map_of rec k of None \<Rightarrow> NaN | Some v \<Rightarrow> v) ?seven"
  let ?fr1 = "\<lparr>fr_columns = ?seven, fr_rows = fr_rows fr0 @ [?row]\<rparr>"
  have ap: "frame_append fr0 rec = ?fr1"
    using frame_append_next[OF outlier_record_keys[OF rec] Cons.prems(1,2)]
    unfolding Cons.prems(1) .
  have l: "count_loop df cs ?fr1 = Inr fr"
    using Cons.prems(3) unfolding count_loop.simps rec sum.case ap .
  have c1: "fr_columns ?fr1 = ?seven" by simp
  have r1: "\<forall>r \<in> set (fr_rows ?fr1). length r = length (fr_columns ?fr1)"
    using Cons.prems(2) unfolding Cons.prems(1) by simp
  note ih = Cons.IH[OF c1 r1 l]
  have a: "fr_columns fr = ?seven" using ih by blast
  have "fr_rows fr = fr_rows ?fr1 @
            map (\<lambda>c. case outlier_record df c of Inl _ \<Rightarrow> []
                      | Inr rec \<Rightarrow> map (\<lambda>k. case map_of rec k of None \<Rightarrow> NaN | Some v \<Rightarrow> v)
                          ?seven) cs"
    using ih by blast
  then have b: "fr_rows fr = fr_rows fr0 @
            map (\<lambda>c. case outlier_record df c of Inl _ \<Rightarrow> []
                      | Inr rec \<Rightarrow> map (\<lambda>k. case map_of rec k of None \<Rightarrow> NaN | Some v \<Rightarrow> v)
                          ?seven) (c # cs)"
    by (simp add: rec)
  have "\<forall>c \<in> set cs. \<exists>rec. outlier_record df c = Inr rec" using ih by blast
  then have d: "\<forall>c \<in> set (c # cs). \<exists>rec. outlier_record df c = Inr rec"
    using rec by simp
  show ?case using a b d by blast
qed

lemma count_outliers_empty:
  "select_dtypes_number df = [] \<Longrightarrow>
   count_outliers_per_column df
     = Inr (new_frame [''Column'', ''Number of high outliers'', ''Number of low outliers''])"
  by (simp add: count_outliers_per_column_def)

lemma count_outliers_result:
  assumes "count_outliers_per_column df = Inr fr" and "select_dtypes_number df \<noteq> []"
  shows "fr_columns fr = [''Column'', ''Number of high outliers'', ''Number of low outliers'',
                       ''Number of High outliers'', ''Number of Low outliers'',
                       ''High outliers %'', ''Low outliers %'']"
    and "fr_rows fr =
            map (\<lambda>c. case outlier_record df c of Inl _ \<Rightarrow> []
                      | Inr rec \<Rightarrow> map (\<lambda>k. case map_of rec k of None \<Rightarrow> NaN | Some v \<Rightarrow> v)
                          [''Column'', ''Number of high outliers'', ''Number of low outliers'',
                           ''Number of High outliers'', ''Number of Low outliers'',
                           ''High outliers %'', ''Low outliers %''])
                (select_dtypes_number df)"
    and "\<forall>c \<in> set (select_dtypes_number df). \<exists>rec. outlier_record df c = Inr rec"
proof -
  let ?seven = "[''Column'', ''Number of high outliers'', ''Number of low outliers'',
                       ''Number of High outliers'', ''Number of Low outliers'',
                       ''High outliers %'', ''Low outliers %'']"
  obtain c cs where cs: "select_dtypes_number df = c # cs"
    using assms(2) by (cases "select_dtypes_number df") auto
  note l0 = assms(1)[unfolded count_outliers_per_column_def cs count_loop.simps]
  obtain rec where rec: "outlier_record df c = Inr rec"
    using l0 by (cases "outlier_record df c") simp_all
  let ?row = "map (\<lambda>k. case map_of rec k of None \<Rightarrow> NaN | Some v \<Rightarrow> v) ?seven"
  let ?fr1 = "\<lparr>fr_columns = ?seven, fr_rows = [?row]\<rparr>"
  have ap: "frame_append (new_frame [''Column'', ''Number of high outliers'', ''Number of low outliers'']) rec
            = ?fr1"
    using frame_append_first[OF outlier_record_keys[OF rec]] .
  have l: "count_loop df cs ?fr1 = Inr fr"
    using l0 unfolding rec sum.case ap .
  have c1: "fr_columns ?fr1 = ?seven" by simp
  have r1: "\<forall>r \<in> set (fr_rows ?fr1). length r = length (fr_columns ?fr1)" by simp
  note inv = count_loop_rows[OF c1 r1 l]
  show "fr_columns fr = ?seven" using inv by blast
  have rows: "fr_rows fr = fr_rows ?fr1 @
            map (\<lambda>c. case outlier_record df c of Inl _ \<Rightarrow> []
                      | Inr rec \<Rightarrow> map (\<lambda>k. case map_of rec k of None \<Rightarrow> NaN | Some v \<Rightarrow> v) ?seven)
                cs"
    using inv by blast
  have rest: "\<forall>c \<in> set cs. \<exists>rec. outlier_record df c = Inr rec" using inv by blast
  show "fr_rows fr =
            map (\<lambda>c. case outlier_record df c of Inl _ \<Rightarrow> []
                      | Inr rec \<Rightarrow> map (\<lambda>k. case map_of rec k of None \<Rightarrow> NaN | Some v \<Rightarrow> v) ?seven)
                (select_dtypes_number df)"
    unfolding cs rows by (simp add: rec)
  show "\<forall>c \<in> set (select_dtypes_number df). \<exists>rec. outlier_record df c = Inr rec"
    unfolding cs using rest rec by simp
qed

lemma report_row:
  assumes "count_outliers_per_column df = Inr fr" and "i < length (select_dtypes_number df)"
  obtains xs where "getitem df (select_dtypes_number df ! i) = Inr (NumCol xs)" "0 < len_df df"
    "fr_columns fr = [''Column'', ''Number of high outliers'', ''Number of low outliers'',
                       ''Number of High outliers'', ''Number of Low outliers'',
                       ''High outliers %'', ''Low outliers %'']"
    "length (fr_rows fr) = length (select_dtypes_number df)"
    "fr_rows fr ! i =
       [StrCell (select_dtypes_number df ! i), NaN, NaN,
        IntCell (int (num_high_outliers df xs)), IntCell (int (num_low_outliers df xs)),
        FloatCell (py_round (fl64 (real (num_high_outliers df xs) * 100 / real (len_df df))) 2),
        FloatCell (py_round (fl64 (real (num_low_outliers df xs) * 100 / real (len_df df))) 2)]"
proof -
  let ?cols = "select_dtypes_number df"
  have ne: "?cols \<noteq> []" using assms(2) by auto
  note res = count_outliers_result[OF assms(1) ne]
  have mem: "?cols ! i \<in> set ?cols" using assms(2) by simp
  then obtain rec where rec: "outlier_record df (?cols ! i) = Inr rec" using res(3) by blast
  obtain xs where g: "getitem df (?cols ! i) = Inr (NumCol xs)" and n: "0 < len_df df"
    and r: "rec = [(''Column'', StrCell (?cols ! i)),
            (''Number of High outliers'', IntCell (int (num_high_outliers df xs))),
            (''Number of Low outliers'', IntCell (int (num_low_outliers df xs))),
            (''High outliers %'',
               FloatCell (py_round (fl64 (real (num_high_outliers df xs) * 100 / real (len_df df))) 2)),
            (''Low outliers %'',
               FloatCell (py_round (fl64 (real (num_low_outliers df xs) * 100 / real (len_df df))) 2))]"
    using rec by (rule outlier_record_Inr)
  have len: "length (fr_rows fr) = length ?cols" unfolding res(2) by simp
  have "fr_rows fr ! i = map (\<lambda>k. case map_of rec k of None \<Rightarrow> NaN | Some v \<Rightarrow> v)
          [''Column'', ''Number of high outliers'', ''Number of low outliers'',
           ''Number of High outliers'', ''Number of Low outliers'',
           ''High outliers %'', ''Low outliers %'']"
    unfolding res(2) using assms(2) by (simp add: rec)
  then have row: "fr_rows fr ! i =
       [StrCell (?cols ! i), NaN, NaN,
        IntCell (int (num_high_outliers df xs)), IntCell (int (num_low_outliers df xs)),
        FloatCell (py_round (fl64 (real (num_high_outliers df xs) * 100 / real (len_df df))) 2),
        FloatCell (py_round (fl64 (real (num_low_outliers df xs) * 100 / real (len_df df))) 2)]"
    unfolding r by simp
  show thesis using that[OF g n res(1) len row] .
qed

lemma report_cells:
  assumes "fr_columns fr = [''Column'', ''Number of high outliers'', ''Number of low outliers'',
                       ''Number of High outliers'', ''Number of Low outliers'',
                       ''High outliers %'', ''Low outliers %'']"
      and "fr_rows fr ! i = [c0, c1, c2, c3, c4, c5, c6]"
  shows "frame_cell fr i ''Column'' = Some c0"
    and "frame_cell fr i ''Number of high outliers'' = Some c1"
    and "frame_cell fr i ''Number of low outliers'' = Some c2"
    and "frame_cell fr i ''Number of High outliers'' = Some c3"
    and "frame_cell fr i ''Number of Low outliers'' = Some c4"
    and "frame_cell fr i ''High outliers %'' = Some c5"
    and "frame_cell fr i ''Low outliers %'' = Some c6"
  unfolding frame_cell_def assms by simp_all

lemma select_numeric_getitem:
  assumes "distinct (map fst (df_columns df))" and "c \<in> set (select_dtypes_number df)"
  shows "\<exists>xs. getitem df c = Inr (NumCol xs)"
proof -
  obtain col where m: "(c, col) \<in> set (df_columns df)"
    and t: "(case col of NumCol _ \<Rightarrow> True | ObjCol _ \<Rightarrow> False)"
    using assms(2) by (auto simp: select_dtypes_number_def)
  obtain xs where "col = NumCol xs" using t by (cases col) simp_all
  then have "map_of (df_columns df) c = Some (NumCol xs)"
    using m assms(1) by (simp add: map_of_eq_Some_iff)
  then show ?thesis by (simp add: getitem_def)
qed

lemma count_loop_returns:
  assumes "0 < len_df df" and "\<forall>c \<in> set cols. \<exists>xs. getitem df c = Inr (NumCol xs)"
  shows "\<exists>fr. count_loop df cols fr0 = Inr fr"
  using assms(2)
proof (induction cols arbitrary: fr0)
  case Nil
  then show ?case by simp
next
  case (Cons c cs)
  obtain xs where g: "getitem df c = Inr (NumCol xs)" using Cons.prems by auto
  obtain rec where rec: "outlier_record df c = Inr rec"
    using outlier_record_returns[OF g assms(1)] by blast
  have "\<forall>c \<in> set cs. \<exists>xs. getitem df c = Inr (NumCol xs)" using Cons.prems by simp
  then obtain fr where "count_loop df cs (frame_append fr0 rec) = Inr fr"
    using Cons.IH by blast
  then show ?case by (simp add: rec)
qed

lemma count_outliers_returns:
  assumes "0 < len_df df" and "distinct (map fst (df_columns df))"
  shows "\<exists>fr. count_outliers_per_column df = Inr fr"
  unfolding count_outliers_per_column_def
  using count_loop_returns[OF assms(1)] select_numeric_getitem[OF assms(2)] by blast

lemma no_values_no_outliers:
  assumes "dropna xs = []"
  shows "num_high_outliers df xs = 0" and "num_low_outliers df xs = 0"
proof -
  have q: "series_quantile xs q = FNaN" for q using assms by (rule quantile_nan)
  show "num_high_outliers df xs = 0"
    unfolding num_high_outliers_def q f64_nan
    by (simp add: df_select_def select_rows_all_false len_df_def)
  show "num_low_outliers df xs = 0"
    unfolding num_low_outliers_def q f64_nan
    by (simp add: df_select_def select_rows_all_false len_df_def)
qed

lemma percent_ties:
  "py_truediv 100 32 = Inr 3.125" "py_round 3.125 2 = fl64 3.12"
  "py_truediv 300 32 = Inr 9.375" "py_round 9.375 2 = fl64 9.38"
  by code_simp+

section \<open>The declared count columns stay empty (C10)\<close>

text \<open>
  Claim C10. Whenever \<open>count_outliers_per_column\<close> returns on a table with at least one
  numeric column, the result has the three declared columns followed by the four columns
  that the appended records bring, one row per numeric column, and in every row the
  declared columns "Number of high outliers" and "Number of low outliers" are missing
  (NaN): the counts stand under "Number of High outliers" and "Number of Low outliers" and
  the percentages under "High outliers %" and "Low outliers %".
\<close>

theorem declared_columns_unfilled:
  assumes "count_outliers_per_column df = Inr fr" and "select_dtypes_number df \<noteq> []"
  shows "fr_columns fr = [''Column'', ''Number of high outliers'', ''Number of low outliers'',
                       ''Number of High outliers'', ''Number of Low outliers'',
                       ''High outliers %'', ''Low outliers %'']
       \<and> length (fr_rows fr) = length (select_dtypes_number df)
       \<and> (\<forall>i < length (fr_rows fr).
             frame_cell fr i ''Number of high outliers'' = Some NaN
           \<and> frame_cell fr i ''Number of low outliers'' = Some NaN
           \<and> (\<exists>xs. getitem df (select_dtypes_number df ! i) = Inr (NumCol xs)
                \<and> frame_cell fr i ''Column'' = Some (StrCell (select_dtypes_number df ! i))
                \<and> frame_cell fr i ''Number of High outliers''
                     = Some (IntCell (int (num_high_outliers df xs)))
                \<and> frame_cell fr i ''Number of Low outliers''
                     = Some (IntCell (int (num_low_outliers df xs)))
                \<and> frame_cell fr i ''High outliers %''
                     = Some (FloatCell (py_round
                          (fl64 (real (num_high_outliers df xs) * 100 / real (len_df df))) 2))
                \<and> frame_cell fr i ''Low outliers %''
                     = Some (FloatCell (py_round
                          (fl64 (real (num_low_outliers df xs) * 100 / real (len_df df))) 2))))"
proof -
  note res = count_outliers_result[OF assms]
  have len: "length (fr_rows fr) = length (select_dtypes_number df)" unfolding res(2) by simp
  have cells: "frame_cell fr i ''Number of high outliers'' = Some NaN
           \<and> frame_cell fr i ''Number of low outliers'' = Some NaN
           \<and> (\<exists>xs. getitem df (select_dtypes_number df ! i) = Inr (NumCol xs)
                \<and> frame_cell fr i ''Column'' = Some (StrCell (select_dtypes_number df ! i))
                \<and> frame_cell fr i ''Number of High outliers''
                     = Some (IntCell (int (num_high_outliers df xs)))
                \<and> frame_cell fr i ''Number of Low outliers''
                     = Some (IntCell (int (num_low_outliers df xs)))
                \<and> frame_cell fr i ''High outliers %''
                     = Some (FloatCell (py_round
                          (fl64 (real (num_high_outliers df xs) * 100 / real (len_df df))) 2))
                \<and> frame_cell fr i ''Low outliers %''
                     = Some (FloatCell (py_round
                          (fl64 (real (num_low_outliers df xs) * 100 / real (len_df df))) 2)))"
    if i: "i < length (fr_rows fr)" for i
  proof -
    have i': "i < length (select_dtypes_number df)" using i len by simp
    obtain xs where g: "getitem df (select_dtypes_number df ! i) = Inr (NumCol xs)"
      and c: "fr_columns fr = [''Column'', ''Number of high outliers'', ''Number of low outliers'',
                       ''Number of High outliers'', ''Number of Low outliers'',
                       ''High outliers %'', ''Low outliers %'']"
      and r: "fr_rows fr ! i =
       [StrCell (select_dtypes_number df ! i), NaN, NaN,
        IntCell (int (num_high_outliers df xs)), IntCell (int (num_low_outliers df xs)),
        FloatCell (py_round (fl64 (real (num_high_outliers df xs) * 100 / real (len_df df))) 2),
        FloatCell (py_round (fl64 (real (num_low_outliers df xs) * 100 / real (len_df df))) 2)]"
      using report_row[OF assms(1) i'] by metis
    note rc = report_cells[OF c r]
    show ?thesis using g rc by blast
  qed
  show ?thesis using res(1) len cells by blast
qed

theorem declared_columns_unfilled_witness:
  "\<exists>fr. count_outliers_per_column \<lparr>df_index = [0, 1, 2, 3, 4, 5],
        df_columns = [(''x'', NumCol [Some 1, Some 2, Some 3, Some 4, Some 5, Some 100])]\<rparr> = Inr fr
     \<and> length (fr_rows fr) = 1
     \<and> frame_cell fr 0 ''Number of high outliers'' = Some NaN
     \<and> frame_cell fr 0 ''Number of low outliers'' = Some NaN
     \<and> frame_cell fr 0 ''Number of High outliers'' = Some (IntCell 1)
     \<and> frame_cell fr 0 ''Number of Low outliers'' = Some (IntCell 0)"
proof -
  let ?xs = "[Some 1, Some 2, Some 3, Some 4, Some 5, Some (100::real)]"
  let ?df = "\<lparr>df_index = [0, 1, 2, 3, 4, 5], df_columns = [(''x'', NumCol ?xs)]\<rparr>"
  have n: "0 < len_df ?df" by (simp add: len_df_def)
  have d: "distinct (map fst (df_columns ?df))" by simp
  have s: "select_dtypes_number ?df = [''x'']" by (simp add: select_dtypes_number_def)
  have ne: "select_dtypes_number ?df \<noteq> []" unfolding s by simp
  have g: "getitem ?df ''x'' = Inr (NumCol ?xs)" by (rule getitem_single)
  obtain fr where r: "count_outliers_per_column ?df = Inr fr"
    using count_outliers_returns[OF n d] by blast
  note t = declared_columns_unfilled[OF r ne, unfolded s]
  have len: "length (fr_rows fr) = 1" using t by simp
  then have i: "0 < length (fr_rows fr)" by simp
  have a: "frame_cell fr 0 ''Number of high outliers'' = Some NaN"
    and b: "frame_cell fr 0 ''Number of low outliers'' = Some NaN"
    using t i by blast+
  obtain xs where gx: "getitem ?df ([''x''] ! 0) = Inr (NumCol xs)"
    and h: "frame_cell fr 0 ''Number of High outliers'' = Some (IntCell (int (num_high_outliers ?df xs)))"
    and l: "frame_cell fr 0 ''Number of Low outliers'' = Some (IntCell (int (num_low_outliers ?df xs)))"
    using t i by blast
  have xs: "xs = ?xs" using gx g by simp
  have h1: "frame_cell fr 0 ''Number of High outliers'' = Some (IntCell 1)"
    unfolding h xs count_example by simp
  have l1: "frame_cell fr 0 ''Number of Low outliers'' = Some (IntCell 0)"
    unfolding l xs count_example by simp
  show ?thesis using r len a b h1 l1 by blast
qed


lemma percent_binary_quotient:
  "py_truediv 100 20000 = Inr (5764607523034235 / 2 ^ 60)"
  "py_round (5764607523034235 / 2 ^ 60) 2 = fl64 (1 / 100)"
  by code_simp+

section \<open>The outlier percentage (C4)\<close>

text \<open>
  Claim C4. In the study and in every row of the per-column report, the percentage is
  \<open>round(count * 100 / len(df), 2)\<close>: the count times 100 divided by the number of rows
  of the whole table (which is then not zero), as a binary64 quotient, rounded to two
  decimals. The rounding takes the integer nearest to 100 times the value, and the even
  one of the two when the value lies exactly halfway: 3.125 (1 row of 32) gives 3.12 and
  9.375 (3 rows of 32) gives 9.38.
\<close>

theorem outlier_percentage:
  "(study_column_continuous skew_lib shapiro_lib df col ps pl sk g = Inr out
      \<and> getitem df col = Inr (NumCol xs) \<longrightarrow>
        0 < len_df df
      \<and> outliers_percent out
          = py_round (fl64 (real (len_df (outliers out)) * 100 / real (len_df df))) 2)
   \<and> (count_outliers_per_column df = Inr fr \<and> i < length (fr_rows fr) \<longrightarrow>
        0 < len_df df
      \<and> (\<exists>ys. getitem df (select_dtypes_number df ! i) = Inr (NumCol ys)
           \<and> frame_cell fr i ''High outliers %''
                = Some (FloatCell (py_round
                     (fl64 (real (num_high_outliers df ys) * 100 / real (len_df df))) 2))
           \<and> frame_cell fr i ''Low outliers %''
                = Some (FloatCell (py_round
                     (fl64 (real (num_low_outliers df ys) * 100 / real (len_df df))) 2))))
   \<and> py_round x 2 = fl64 (of_int (round_half_even (x * 100)) / 100)
   \<and> \<bar>x * 100 - of_int (round_half_even (x * 100))\<bar> \<le> 1 / 2
   \<and> (\<bar>x * 100 - of_int (round_half_even (x * 100))\<bar> = 1 / 2 \<longrightarrow> even (round_half_even (x * 100)))
   \<and> py_truediv 100 32 = Inr 3.125 \<and> py_round 3.125 2 = fl64 3.12
   \<and> py_truediv 300 32 = Inr 9.375 \<and> py_round 9.375 2 = fl64 9.38"
proof -
  have a: "0 < len_df df
      \<and> outliers_percent out
          = py_round (fl64 (real (len_df (outliers out)) * 100 / real (len_df df))) 2"
    if "study_column_continuous skew_lib shapiro_lib df col ps pl sk g = Inr out
      \<and> getitem df col = Inr (NumCol xs)"
    using study_percent[of skew_lib shapiro_lib df col ps pl sk g out xs] that by blast
  have b: "0 < len_df df
      \<and> (\<exists>ys. getitem df (select_dtypes_number df ! i) = Inr (NumCol ys)
           \<and> frame_cell fr i ''High outliers %''
                = Some (FloatCell (py_round
                     (fl64 (real (num_high_outliers df ys) * 100 / real (len_df df))) 2))
           \<and> frame_cell fr i ''Low outliers %''
                = Some (FloatCell (py_round
                     (fl64 (real (num_low_outliers df ys) * 100 / real (len_df df))) 2)))"
    if h: "count_outliers_per_column df = Inr fr \<and> i < length (fr_rows fr)"
  proof -
    have r: "count_outliers_per_column df = Inr fr" and i: "i < length (fr_rows fr)"
      using h by blast+
    have ne: "select_dtypes_number df \<noteq> []"
    proof
      assume "select_dtypes_number df = []"
      then have "fr = new_frame [''Column'', ''Number of high outliers'', ''Number of low outliers'']"
        using count_outliers_empty[of df] r by simp
      then show False using i by (simp add: new_frame_def)
    qed
    have "length (fr_rows fr) = length (select_dtypes_number df)"
      using count_outliers_result(2)[OF r ne] by simp
    then have i': "i < length (select_dtypes_number df)" using i by simp
    obtain ys where g: "getitem df (select_dtypes_number df ! i) = Inr (NumCol ys)"
      and n: "0 < len_df df"
      and c: "fr_columns fr = [''Column'', ''Number of high outliers'', ''Number of low outliers'',
                       ''Number of High outliers'', ''Number of Low outliers'',
                       ''High outliers %'', ''Low outliers %'']"
      and rw: "fr_rows fr ! i =
       [StrCell (select_dtypes_number df ! i), NaN, NaN,
        IntCell (int (num_high_outliers df ys)), IntCell (int (num_low_outliers df ys)),
        FloatCell (py_round (fl64 (real (num_high_outliers df ys) * 100 / real (len_df df))) 2),
        FloatCell (py_round (fl64 (real (num_low_outliers df ys) * 100 / real (len_df df))) 2)]"
      using report_row[OF r i'] by metis
    note rc = report_cells[OF c rw]
    show ?thesis using n g rc(6,7) by blast
  qed
  have c: "py_round x 2 = fl64 (of_int (round_half_even (x * 100)) / 100)"
    by (simp add: py_round_def)
  note d = round_half_even_near[of "x * 100"]
  show ?thesis using a b c d percent_ties by blast
qed

theorem outlier_percentage_witness:
  "(\<exists>out. study_column_continuous (\<lambda>_. None) (\<lambda>_. Inl ValueError)
       \<lparr>df_index = [0, 1, 2, 3, 4, 5],
        df_columns = [(''x'', NumCol [Some 1, Some 2, Some 3, Some 4, Some 5, Some 100])]\<rparr>
       ''x'' False False False False = Inr out
     \<and> outliers_percent out = fl64 (1667 / 100))
   \<and> (\<exists>fr. count_outliers_per_column \<lparr>df_index = [0, 1, 2, 3, 4, 5],
        df_columns = [(''x'', NumCol [Some 1, Some 2, Some 3, Some 4, Some 5, Some 100])]\<rparr> = Inr fr
     \<and> frame_cell fr 0 ''High outliers %'' = Some (FloatCell (fl64 (1667 / 100)))
     \<and> frame_cell fr 0 ''Low outliers %'' = Some (FloatCell 0))"
proof -
  let ?xs = "[Some 1, Some 2, Some 3, Some 4, Some 5, Some (100::real)]"
  let ?df = "\<lparr>df_index = [0, 1, 2, 3, 4, 5], df_columns = [(''x'', NumCol ?xs)]\<rparr>"
  have n: "0 < len_df ?df" and n6: "len_df ?df = 6" by (simp_all add: len_df_def)
  have d: "distinct (map fst (df_columns ?df))" by simp
  have s: "select_dtypes_number ?df = [''x'']" by (simp add: select_dtypes_number_def)
  have g: "getitem ?df ''x'' = Inr (NumCol ?xs)" by (rule getitem_single)
  obtain out where r1: "study_column_continuous (\<lambda>_. None) (\<lambda>_. Inl ValueError) ?df ''x''
      False False False False = Inr out"
    using study_returns[OF g n, of False] by blast
  have o: "outliers out = \<lparr>df_index = [5], df_columns = [(''x'', NumCol [Some 100])]\<rparr>"
    using r1 unfolding study_example by auto
  have lo: "len_df (outliers out) = 1" unfolding o by (simp add: len_df_def)
  have "outliers_percent out
          = py_round (fl64 (real (len_df (outliers out)) * 100 / real (len_df ?df))) 2"
    using outlier_percentage[of "\<lambda>_. None" "\<lambda>_. Inl ValueError" ?df "''x''"
        False False False False out ?xs] r1 g by blast
  then have p1: "outliers_percent out = fl64 (1667 / 100)"
    unfolding lo n6 using percent_example by simp
  obtain fr where r2: "count_outliers_per_column ?df = Inr fr"
    using count_outliers_returns[OF n d] by blast
  have "length (fr_rows fr) = 1"
    using count_outliers_result(2)[OF r2] unfolding s by simp
  then have i: "0 < length (fr_rows fr)" by simp
  obtain ys where gy: "getitem ?df (select_dtypes_number ?df ! 0) = Inr (NumCol ys)"
    and h: "frame_cell fr 0 ''High outliers %''
                = Some (FloatCell (py_round
                     (fl64 (real (num_high_outliers ?df ys) * 100 / real (len_df ?df))) 2))"
    and l: "frame_cell fr 0 ''Low outliers %''
                = Some (FloatCell (py_round
                     (fl64 (real (num_low_outliers ?df ys) * 100 / real (len_df ?df))) 2))"
    using outlier_percentage[of _ _ ?df _ _ _ _ _ _ _ fr 0] r2 i by blast
  have ys: "ys = ?xs" using gy g unfolding s by simp
  have h1: "frame_cell fr 0 ''High outliers %'' = Some (FloatCell (fl64 (1667 / 100)))"
    unfolding h ys count_example n6 using percent_example by simp
  have l1: "frame_cell fr 0 ''Low outliers %'' = Some (FloatCell 0)"
    unfolding l ys count_example n6 using py_round_zero by simp
  show ?thesis using r1 p1 r2 h1 l1 by blast
qed

section \<open>Tables without rows or without values (C8)\<close>

text \<open>
  Claim C8, amended. On a table without a numeric column, so also on a table without any
  column, \<open>count_outliers_per_column\<close> returns the frame of its three declared columns and
  no row. On a table with at least one row and distinct column names it always returns,
  one row per numeric column, and a numeric column whose values are all missing is
  reported with 0 high and 0 low outliers and percentages 0. The counterexample shows both
  failures of the claim as stated: a table of zero rows with a numeric column raises
  \<open>ZeroDivisionError\<close>, and a column of two missing values is reported, not rejected.
\<close>

theorem per_column_empty:
  "(select_dtypes_number df = [] \<longrightarrow>
      count_outliers_per_column df
        = Inr \<lparr>fr_columns = [''Column'', ''Number of high outliers'', ''Number of low outliers''],
               fr_rows = []\<rparr>)
   \<and> (0 < len_df df \<and> distinct (map fst (df_columns df)) \<longrightarrow>
        (\<exists>fr. count_outliers_per_column df = Inr fr
           \<and> length (fr_rows fr) = length (select_dtypes_number df)
           \<and> (\<forall>i xs. i < length (fr_rows fr)
                   \<and> getitem df (select_dtypes_number df ! i) = Inr (NumCol xs)
                   \<and> dropna xs = [] \<longrightarrow>
                     frame_cell fr i ''Number of High outliers'' = Some (IntCell 0)
                   \<and> frame_cell fr i ''Number of Low outliers'' = Some (IntCell 0)
                   \<and> frame_cell fr i ''High outliers %'' = Some (FloatCell 0)
                   \<and> frame_cell fr i ''Low outliers %'' = Some (FloatCell 0))))"
proof (intro conjI impI)
  assume "select_dtypes_number df = []"
  then show "count_outliers_per_column df
        = Inr \<lparr>fr_columns = [''Column'', ''Number of high outliers'', ''Number of low outliers''],
               fr_rows = []\<rparr>"
    using count_outliers_empty[of df] by (simp add: new_frame_def)
next
  assume a: "0 < len_df df \<and> distinct (map fst (df_columns df))"
  then obtain fr where r: "count_outliers_per_column df = Inr fr"
    using count_outliers_returns[of df] by blast
  have len: "length (fr_rows fr) = length (select_dtypes_number df)"
  proof (cases "select_dtypes_number df = []")
    case True
    then have "fr = new_frame [''Column'', ''Number of high outliers'', ''Number of low outliers'']"
      using count_outliers_empty[of df] r by simp
    then show ?thesis using True by (simp add: new_frame_def)
  next
    case False
    show ?thesis using count_outliers_result(2)[OF r False] by simp
  qed
  have cells: "frame_cell fr i ''Number of High outliers'' = Some (IntCell 0)
                   \<and> frame_cell fr i ''Number of Low outliers'' = Some (IntCell 0)
                   \<and> frame_cell fr i ''High outliers %'' = Some (FloatCell 0)
                   \<and> frame_cell fr i ''Low outliers %'' = Some (FloatCell 0)"
    if h: "i < length (fr_rows fr) \<and> getitem df (select_dtypes_number df ! i) = Inr (NumCol xs)
           \<and> dropna xs = []" for i xs
  proof -
    have i': "i < length (select_dtypes_number df)" using h len by simp
    have g: "getitem df (select_dtypes_number df ! i) = Inr (NumCol xs)" using h by blast
    have d: "dropna xs = []" using h by blast
    obtain ys where gy: "getitem df (select_dtypes_number df ! i) = Inr (NumCol ys)"
      and c: "fr_columns fr = [''Column'', ''Number of high outliers'', ''Number of low outliers'',
                       ''Number of High outliers'', ''Number of Low outliers'',
                       ''High outliers %'', ''Low outliers %'']"
      and rw: "fr_rows fr ! i =
       [StrCell (select_dtypes_number df ! i), NaN, NaN,
        IntCell (int (num_high_outliers df ys)), IntCell (int (num_low_outliers df ys)),
        FloatCell (py_round (fl64 (real (num_high_outliers df ys) * 100 / real (len_df df))) 2),
        FloatCell (py_round (fl64 (real (num_low_outliers df ys) * 100 / real (len_df df))) 2)]"
      using report_row[OF r i'] by metis
    have ys: "ys = xs" using g gy by simp
    have z: "num_high_outliers df ys = 0" "num_low_outliers df ys = 0"
      unfolding ys using no_values_no_outliers[OF d] by simp_all
    have rw0: "fr_rows fr ! i =
       [StrCell (select_dtypes_number df ! i), NaN, NaN, IntCell 0, IntCell 0,
        FloatCell 0, FloatCell 0]"
      using rw unfolding z using py_round_zero by simp
    note rc = report_cells[OF c rw0]
    show ?thesis using rc(4-7) by blast
  qed
  show "\<exists>fr. count_outliers_per_column df = Inr fr
           \<and> length (fr_rows fr) = length (select_dtypes_number df)
           \<and> (\<forall>i xs. i < length (fr_rows fr)
                   \<and> getitem df (select_dtypes_number df ! i) = Inr (NumCol xs)
                   \<and> dropna xs = [] \<longrightarrow>
                     frame_cell fr i ''Number of High outliers'' = Some (IntCell 0)
                   \<and> frame_cell fr i ''Number of Low outliers'' = Some (IntCell 0)
                   \<and> frame_cell fr i ''High outliers %'' = Some (FloatCell 0)
                   \<and> frame_cell fr i ''Low outliers %'' = Some (FloatCell 0))"
    using r len cells by blast
qed

theorem per_column_empty_witness:
  "count_outliers_per_column \<lparr>df_index = [], df_columns = [(''s'', ObjCol [])]\<rparr>
     = Inr \<lparr>fr_columns = [''Column'', ''Number of high outliers'', ''Number of low outliers''],
            fr_rows = []\<rparr>
   \<and> (\<exists>fr. count_outliers_per_column
              \<lparr>df_index = [0, 1], df_columns = [(''a'', NumCol [None, None])]\<rparr> = Inr fr
         \<and> length (fr_rows fr) = 1
         \<and> frame_cell fr 0 ''Number of High outliers'' = Some (IntCell 0)
         \<and> frame_cell fr 0 ''Number of Low outliers'' = Some (IntCell 0)
         \<and> frame_cell fr 0 ''High outliers %'' = Some (FloatCell 0)
         \<and> frame_cell fr 0 ''Low outliers %'' = Some (FloatCell 0))"
proof -
  let ?e = "\<lparr>df_index = [], df_columns = [(''s'', ObjCol [])]\<rparr>"
  let ?xs = "[None, None] :: pyfloat list"
  let ?df = "\<lparr>df_index = [0, 1], df_columns = [(''a'', NumCol ?xs)]\<rparr>"
  have se: "select_dtypes_number ?e = []" by (simp add: select_dtypes_number_def)
  have a: "count_outliers_per_column ?e
     = Inr \<lparr>fr_columns = [''Column'', ''Number of high outliers'', ''Number of low outliers''],
            fr_rows = []\<rparr>"
    using per_column_empty[of ?e] se by blast
  have n: "0 < len_df ?df" by (simp add: len_df_def)
  have d: "distinct (map fst (df_columns ?df))" by simp
  have s: "select_dtypes_number ?df = [''a'']" by (simp add: select_dtypes_number_def)
  have g: "getitem ?df ([''a''] ! 0) = Inr (NumCol ?xs)" by (simp add: getitem_def)
  have dn: "dropna ?xs = []" by (simp add: dropna_def List.map_filter_def)
  obtain fr where r: "count_outliers_per_column ?df = Inr fr"
    and len: "length (fr_rows fr) = length (select_dtypes_number ?df)"
    and c: "\<forall>i xs. i < length (fr_rows fr)
                   \<and> getitem ?df (select_dtypes_number ?df ! i) = Inr (NumCol xs)
                   \<and> dropna xs = [] \<longrightarrow>
                     frame_cell fr i ''Number of High outliers'' = Some (IntCell 0)
                   \<and> frame_cell fr i ''Number of Low outliers'' = Some (IntCell 0)
                   \<and> frame_cell fr i ''High outliers %'' = Some (FloatCell 0)
                   \<and> frame_cell fr i ''Low outliers %'' = Some (FloatCell 0)"
    using per_column_empty[of ?df] n d by blast
  have l1: "length (fr_rows fr) = 1" using len unfolding s by simp
  then have i: "0 < length (fr_rows fr)" by simp
  have "frame_cell fr 0 ''Number of High outliers'' = Some (IntCell 0)
                   \<and> frame_cell fr 0 ''Number of Low outliers'' = Some (IntCell 0)
                   \<and> frame_cell fr 0 ''High outliers %'' = Some (FloatCell 0)
                   \<and> frame_cell fr 0 ''Low outliers %'' = Some (FloatCell 0)"
    using c[unfolded s] i g dn by blast
  then show ?thesis using a r l1 by blast
qed

theorem empty_table_counterexample:
  "count_outliers_per_column \<lparr>df_index = [], df_columns = [(''a'', NumCol [])]\<rparr>
     = Inl ZeroDivisionError
   \<and> count_outliers_per_column \<lparr>df_index = [0, 1], df_columns = [(''a'', NumCol [None, None])]\<rparr>
     = Inr \<lparr>fr_columns = [''Column'', ''Number of high outliers'', ''Number of low outliers'',
                           ''Number of High outliers'', ''Number of Low outliers'',
                           ''High outliers %'', ''Low outliers %''],
            fr_rows = [[StrCell ''a'', NaN, NaN, IntCell 0, IntCell 0, FloatCell 0, FloatCell 0]]\<rparr>"
proof -
  let ?e = "\<lparr>df_index = [], df_columns = [(''a'', NumCol [])]\<rparr>"
  let ?xs = "[None, None] :: pyfloat list"
  let ?df = "\<lparr>df_index = [0, 1], df_columns = [(''a'', NumCol ?xs)]\<rparr>"
  have "outlier_record ?e ''a'' = Inl ZeroDivisionError"
    by (simp add: outlier_record_def getitem_def py_truediv_def len_df_def)
  then have a: "count_outliers_per_column ?e = Inl ZeroDivisionError"
    by (simp add: count_outliers_per_column_def select_dtypes_number_def)
  have dn: "dropna ?xs = []" by (simp add: dropna_def List.map_filter_def)
  have z: "num_high_outliers ?df ?xs = 0" "num_low_outliers ?df ?xs = 0"
    using no_values_no_outliers[OF dn] by simp_all
  have p: "py_truediv (int 0 * 100) (int (len_df ?df)) = Inr (fl64 0)"
    by (simp add: py_truediv_def len_df_def)
  have sd: "select_dtypes_number ?df = [''a'']" by (simp add: select_dtypes_number_def)
  have rec: "outlier_record ?df ''a'' = Inr [(''Column'', StrCell ''a''),
            (''Number of High outliers'', IntCell 0), (''Number of Low outliers'', IntCell 0),
            (''High outliers %'', FloatCell 0), (''Low outliers %'', FloatCell 0)]"
    unfolding outlier_record_def getitem_single sum.case column.case z p py_round_zero by simp
  have b: "count_outliers_per_column ?df
     = Inr \<lparr>fr_columns = [''Column'', ''Number of high outliers'', ''Number of low outliers'',
                           ''Number of High outliers'', ''Number of Low outliers'',
                           ''High outliers %'', ''Low outliers %''],
            fr_rows = [[StrCell ''a'', NaN, NaN, IntCell 0, IntCell 0, FloatCell 0, FloatCell 0]]\<rparr>"
    unfolding count_outliers_per_column_def sd count_loop.simps rec sum.case
    by (simp add: frame_append_def new_frame_def)
  show ?thesis using a b by (rule conjI)
qed


section \<open>Properties of \<open>Series.mode\<close>\<close>

lemma fold_max_bounds:
  "a \<le> fold max ns (a::nat)" "\<forall>n \<in> set ns. n \<le> fold max ns a"
  "fold max ns a \<in> insert a (set ns)"
proof (induction ns arbitrary: a)
  case Nil
  {
    case 1 show ?case by simp
  next
    case 2 show ?case by simp
  next
    case 3 show ?case by simp
  }
next
  case (Cons n ns)
  {
    case 1
    have "a \<le> max n a" by simp
    also have "max n a \<le> fold max ns (max n a)" by (rule Cons.IH(1))
    finally show ?case by simp
  next
    case 2
    have "n \<le> max n a" by simp
    also have "max n a \<le> fold max ns (max n a)" by (rule Cons.IH(1))
    finally have "n \<le> fold max (n # ns) a" by simp
    moreover have "\<forall>k \<in> set ns. k \<le> fold max (n # ns) a" using Cons.IH(2)[of "max n a"] by simp
    ultimately show ?case by simp
  next
    case 3
    have i: "fold max ns (max n a) \<in> insert (max n a) (set ns)" by (rule Cons.IH(3))
    have m: "max n a = n \<or> max n a = a" by (simp add: max_def)
    have f: "fold max (n # ns) a = fold max ns (max n a)" by simp
    show ?case unfolding f using i m by auto
  }
qed

lemma max_count_ge: "count_list ys v \<le> max_count ys"
proof (cases "v \<in> set ys")
  case True
  then have "count_list ys v \<in> set (map (count_list ys) ys)" by simp
  then show ?thesis unfolding max_count_def using fold_max_bounds(2) by blast
next
  case False
  then show ?thesis by simp
qed

lemma max_count_attained:
  assumes "ys \<noteq> []"
  shows "\<exists>v \<in> set ys. count_list ys v = max_count ys"
proof -
  obtain y where y: "y \<in> set ys" using assms by (cases ys) auto
  then have "count_list ys y \<noteq> 0" using count_list_0_iff[of ys y] by blast
  then have "0 < count_list ys y" by simp
  then have pos: "0 < max_count ys" using max_count_ge[of ys y] by linarith
  have "max_count ys \<in> insert 0 (set (map (count_list ys) ys))"
    unfolding max_count_def by (rule fold_max_bounds(3))
  then have "max_count ys \<in> set (map (count_list ys) ys)" using pos by auto
  then show ?thesis by auto
qed

lemma series_mode_set:
  "set (series_mode xs) = {v \<in> set (dropna xs). count_list (dropna xs) v = max_count (dropna xs)}"
  by (auto simp: series_mode_def Let_def)

lemma series_mode_first:
  assumes "dropna xs \<noteq> []"
  shows "\<exists>m. first_item (series_mode xs) = Inr m \<and> m \<in> set (dropna xs)
           \<and> (\<forall>v. count_list (dropna xs) v \<le> count_list (dropna xs) m)
           \<and> (\<forall>v. count_list (dropna xs) v = count_list (dropna xs) m \<longrightarrow> m \<le> v)"
proof -
  let ?ys = "dropna xs"
  obtain w where w: "w \<in> set ?ys" "count_list ?ys w = max_count ?ys"
    using max_count_attained[OF assms] by blast
  then have "w \<in> set (series_mode xs)" by (simp add: series_mode_set)
  then obtain m ms where ms: "series_mode xs = m # ms" by (cases "series_mode xs") auto
  have f: "first_item (series_mode xs) = Inr m" by (simp add: first_item_def ms)
  have "m \<in> set (series_mode xs)" by (simp add: ms)
  then have mem: "m \<in> set ?ys" and cm: "count_list ?ys m = max_count ?ys"
    by (simp_all add: series_mode_set)
  have srt: "sorted (series_mode xs)" by (simp add: series_mode_def Let_def)
  have least: "m \<le> v" if "v \<in> set (series_mode xs)" for v
    using srt that unfolding ms by auto
  have a: "count_list ?ys v \<le> count_list ?ys m" for v
    unfolding cm by (rule max_count_ge)
  have b: "m \<le> v" if e: "count_list ?ys v = count_list ?ys m" for v
  proof -
    have "count_list ?ys v = max_count ?ys" using e cm by simp
    moreover have "0 < max_count ?ys" using mem cm by (metis count_list_0_iff gr0I)
    ultimately have "v \<in> set ?ys" by (metis count_list_0_iff less_numeral_extra(3))
    then have "v \<in> set (series_mode xs)"
      using \<open>count_list ?ys v = max_count ?ys\<close> by (simp add: series_mode_set)
    then show ?thesis by (rule least)
  qed
  show ?thesis using f mem a b by blast
qed

section \<open>The mode and its tie-break (C9)\<close>

text \<open>
  Claim C9. For every numeric column with at least one non-missing value, the mode that
  \<open>study_column_discrete\<close> (with \<open>print_stats\<close>) and \<open>study_column_categorical\<close> print
  is one and the same value of the column; no value occurs more often, and every value
  that occurs as often is greater or equal, so ties go to the smallest value. The mode is
  printed before anything is drawn: whether the call then ends with an exception is the
  outcome of the drawing calls. The witness is the column \<open>[1, 1, 2, 2]\<close>, whose printed
  mode is 1.
\<close>

theorem mode_smallest:
  assumes "getitem df col = Inr (NumCol xs)" and "dropna xs \<noteq> []"
  shows "\<exists>m. mode_line (study_column_discrete barplot_lib countplot_lib df col target True) = Some m
           \<and> mode_printed (study_column_categorical pie_lib histplot_lib df col target)
               = Some (FloatCell m)
           \<and> unique_printed (study_column_categorical pie_lib histplot_lib df col target)
               = Some (length (remdups xs))
           \<and> raised (study_column_discrete barplot_lib countplot_lib df col target True)
               = (case target of Some (t # ts) \<Rightarrow> countplot_lib df col (t # ts)
                  | _ \<Rightarrow> barplot_lib (NumCol xs))
           \<and> m \<in> set (dropna xs)
           \<and> (\<forall>v. count_list (dropna xs) v \<le> count_list (dropna xs) m)
           \<and> (\<forall>v. count_list (dropna xs) v = count_list (dropna xs) m \<longrightarrow> m \<le> v)"
proof -
  obtain m where f: "first_item (series_mode xs) = Inr m" and mem: "m \<in> set (dropna xs)"
    and a: "\<forall>v. count_list (dropna xs) v \<le> count_list (dropna xs) m"
    and b: "\<forall>v. count_list (dropna xs) v = count_list (dropna xs) m \<longrightarrow> m \<le> v"
    using series_mode_first[OF assms(2)] by blast
  have d: "mode_line (study_column_discrete barplot_lib countplot_lib df col target True) = Some m"
    by (simp add: study_column_discrete_def assms(1) f)
  have r: "raised (study_column_discrete barplot_lib countplot_lib df col target True)
               = (case target of Some (t # ts) \<Rightarrow> countplot_lib df col (t # ts)
                  | _ \<Rightarrow> barplot_lib (NumCol xs))"
    by (simp add: study_column_discrete_def assms(1) f split: option.split list.split)
  have c: "mode_printed (study_column_categorical pie_lib histplot_lib df col target)
               = Some (FloatCell m)"
    by (simp add: study_column_categorical_def assms(1) f)
  have u: "unique_printed (study_column_categorical pie_lib histplot_lib df col target)
               = Some (length (remdups xs))"
    by (simp add: study_column_categorical_def assms(1) f)
  show ?thesis using d c u r mem a b by blast
qed

theorem mode_smallest_witness:
  "mode_line (study_column_discrete (\<lambda>_. None) (\<lambda>_ _ _. None) \<lparr>df_index = [0, 1, 2, 3],
       df_columns = [(''x'', NumCol [Some 1, Some 1, Some 2, Some 2])]\<rparr> ''x'' None True)
     = Some 1
   \<and> mode_printed (study_column_categorical (\<lambda>_. None) (\<lambda>_ _ _. None) \<lparr>df_index = [0, 1, 2, 3],
       df_columns = [(''x'', NumCol [Some 1, Some 1, Some 2, Some 2])]\<rparr> ''x'' None)
     = Some (FloatCell 1)"
proof -
  let ?xs = "[Some 1, Some 1, Some 2, Some (2::real)]"
  let ?df = "\<lparr>df_index = [0, 1, 2, 3], df_columns = [(''x'', NumCol ?xs)]\<rparr>"
  let ?b = "\<lambda>_ :: column. None :: py_error option"
  let ?c = "\<lambda>(_ :: dataframe) (_ :: string) (_ :: string). None :: py_error option"
  have g: "getitem ?df ''x'' = Inr (NumCol ?xs)" by (rule getitem_single)
  have dn: "dropna ?xs = [1, 1, 2, 2]" by (simp add: dropna_def List.map_filter_def)
  have ne: "dropna ?xs \<noteq> []" unfolding dn by simp
  obtain m where d: "mode_line (study_column_discrete ?b ?c ?df ''x'' None True) = Some m"
    and c: "mode_printed (study_column_categorical ?b ?c ?df ''x'' None) = Some (FloatCell m)"
    and mem: "m \<in> set (dropna ?xs)"
    and b: "\<forall>v. count_list (dropna ?xs) v = count_list (dropna ?xs) m \<longrightarrow> m \<le> v"
    using mode_smallest[OF g ne, of ?b ?c None ?b ?c] by blast
  have m12: "m = 1 \<or> m = 2" using mem unfolding dn by simp
  have c1: "count_list [1, 1, 2, 2::real] 1 = 2" and c2: "count_list [1, 1, 2, 2::real] 2 = 2"
    by simp_all
  have "count_list (dropna ?xs) 1 = count_list (dropna ?xs) m"
    using m12 unfolding dn using c1 c2 by auto
  then have "m \<le> 1" using b by blast
  then have m1: "m = 1" using m12 by auto
  show ?thesis using d c unfolding m1 by (rule conjI)
qed


end
